theory Spec2Isabelle
  imports Complex_Main
begin

section \<open>JavaScript values and strings\<close>

text \<open>
  The values the client handles are the results of \<^verbatim>\<open>JSON.parse\<close>, of property reads
  on them (which may be \<^verbatim>\<open>undefined\<close>) and the literals of the code. An object is
  the list of its members. Strings are lists of code units below 256.
\<close>

datatype jsval =
    JUndefined
  | JNull
  | JBool bool
  | JNum real
  | JStr string
  | JArr "jsval list"
  | JObj "(string \<times> jsval) list"

text \<open>Truthiness decides \<^verbatim>\<open>a || b\<close> and \<^verbatim>\<open>if (a)\<close>; nullishness decides
  \<^verbatim>\<open>a ?? b\<close>, \<^verbatim>\<open>a == null\<close> and \<^verbatim>\<open>a?.k\<close>.\<close>

fun truthy :: "jsval \<Rightarrow> bool" where
  "truthy JUndefined = False"
| "truthy JNull = False"
| "truthy (JBool b) = b"
| "truthy (JNum n) = (n \<noteq> 0)"
| "truthy (JStr s) = (s \<noteq> [])"
| "truthy (JArr xs) = True"
| "truthy (JObj kvs) = True"

fun nullish :: "jsval \<Rightarrow> bool" where
  "nullish JUndefined = True"
| "nullish JNull = True"
| "nullish v = False"

definition js_coalesce :: "jsval \<Rightarrow> jsval \<Rightarrow> jsval" where
  "js_coalesce a b = (if nullish a then b else a)"

text \<open>
  \<^verbatim>\<open>v.k\<close> for the member names the client reads (\<^verbatim>\<open>step_id\<close>, \<^verbatim>\<open>message\<close>,
  \<^verbatim>\<open>data\<close>, \<^verbatim>\<open>SeqID\<close>, ...): none of them is an index or a prototype member, so
  only an object can have one. The members of an object that \<^verbatim>\<open>JSON.parse\<close> made have
  distinct names. Reading a member of \<^verbatim>\<open>null\<close> or \<^verbatim>\<open>undefined\<close> throws; the
  callers below test for that before they use \<open>getProp\<close>.
\<close>

fun getProp :: "jsval \<Rightarrow> string \<Rightarrow> jsval" where
  "getProp (JObj kvs) k = (case map_of kvs k of Some v \<Rightarrow> v | None \<Rightarrow> JUndefined)"
| "getProp v k = JUndefined"

text \<open>\<^verbatim>\<open>v?.k\<close>\<close>

definition optProp :: "jsval \<Rightarrow> string \<Rightarrow> jsval" where
  "optProp v k = (if nullish v then JUndefined else getProp v k)"

definition LF :: char where "LF = CHR 0x0A"
definition CR :: char where "CR = CHR 0x0D"

text \<open>The white space and line terminators of JavaScript below code unit 256.\<close>

definition isWhiteSpace :: "char \<Rightarrow> bool" where
  "isWhiteSpace c \<longleftrightarrow> c \<in> {CHR 0x09, CHR 0x0A, CHR 0x0B, CHR 0x0C, CHR 0x0D, CHR 0x20, CHR 0xA0}"

definition trimStart :: "string \<Rightarrow> string" where
  "trimStart s = dropWhile isWhiteSpace s"

definition trimEnd :: "string \<Rightarrow> string" where
  "trimEnd s = rev (dropWhile isWhiteSpace (rev s))"

definition trim :: "string \<Rightarrow> string" where
  "trim s = trimEnd (trimStart s)"

definition startsWith :: "string \<Rightarrow> string \<Rightarrow> bool" where
  "startsWith s p \<longleftrightarrow> take (length p) s = p"

fun includes_str :: "string \<Rightarrow> string \<Rightarrow> bool" where
  "includes_str [] p = (p = [])"
| "includes_str (c # cs) p = (startsWith (c # cs) p \<or> includes_str cs p)"

text \<open>\<^verbatim>\<open>lines.join('\n')\<close>\<close>

fun joinLines :: "string list \<Rightarrow> string" where
  "joinLines [] = []"
| "joinLines [l] = l"
| "joinLines (l # m # ls) = l @ LF # joinLines (m # ls)"

text \<open>\<^verbatim>\<open>text.split(/\r?\n/)\<close>: \<open>cur\<close> holds the current line, reversed.\<close>

fun splitAcc :: "string \<Rightarrow> string \<Rightarrow> string list" where
  "splitAcc cur [] = [rev cur]"
| "splitAcc cur [c] = (if c = LF then [rev cur, []] else [rev (c # cur)])"
| "splitAcc cur (c # d # cs) =
     (if c = LF then rev cur # splitAcc [] (d # cs)
      else if c = CR \<and> d = LF then rev cur # splitAcc [] cs
      else splitAcc (c # cur) (d # cs))"

definition splitLines :: "string \<Rightarrow> string list" where
  "splitLines text = splitAcc [] text"

section \<open>Event kinds\<close>

datatype event_type =
  Workflow | Phase | Agent | Task | ChatToken | ChatLifecycle | Unknown

text \<open>
  Modelled from the spec: \<^verbatim>\<open>getEventType\<close> of \<^verbatim>\<open>@/types/events\<close>, which the sources
  import but do not contain. The spec derives the kind from the step id by prefix
  matching, case-sensitive, the first match winning: \<^verbatim>\<open>workflow:\<close> is workflow,
  \<^verbatim>\<open>phase:\<close> is phase, \<^verbatim>\<open>agent:...:task-\<close> is task, \<^verbatim>\<open>agent:...\<close> is agent,
  \<^verbatim>\<open>chat:token\<close> or \<^verbatim>\<open>chat:tokens\<close> is chatToken,
  \<^verbatim>\<open>chat:request|response|complete\<close> is chatLifecycle, anything else unknown.
\<close>

definition getEventType :: "string \<Rightarrow> event_type" where
  "getEventType stepId =
     (if startsWith stepId ''workflow:'' then Workflow
      else if startsWith stepId ''phase:'' then Phase
      else if startsWith stepId ''agent:'' \<and> includes_str (drop 6 stepId) '':task-'' then Task
      else if startsWith stepId ''agent:'' then Agent
      else if startsWith stepId ''chat:token'' \<or> startsWith stepId ''chat:tokens'' then ChatToken
      else if startsWith stepId ''chat:request'' \<or> startsWith stepId ''chat:response''
              \<or> startsWith stepId ''chat:complete'' then ChatLifecycle
      else Unknown)"

section \<open>The event wire decoder\<close>

text \<open>
  What the code can throw: a \<^verbatim>\<open>TypeError\<close> of the runtime (a member read on
  \<^verbatim>\<open>null\<close>, a \<^verbatim>\<open>for ... of\<close> over a value that is not iterable, a failed
  request), the \<^verbatim>\<open>AbortError\<close> of an aborted request, the \<^verbatim>\<open>SyntaxError\<close> of
  \<^verbatim>\<open>JSON.parse\<close>, and the \<^verbatim>\<open>Error\<close> the client constructs with its message.
\<close>

datatype error = TypeError | AbortError | SyntaxError | Error string

fun errorName :: "error \<Rightarrow> string" where
  "errorName TypeError = ''TypeError''"
| "errorName AbortError = ''AbortError''"
| "errorName SyntaxError = ''SyntaxError''"
| "errorName (Error msg) = ''Error''"

record job_event =
  step_id :: jsval
  message :: jsval
  finished :: jsval
  timestamp :: jsval
  type :: event_type

text \<open>
  The field \<open>timestamp\<close> holds the argument of \<^verbatim>\<open>new Date(...)\<close>; the fields hold
  values, not strings, since the casts \<^verbatim>\<open>as string\<close> and \<^verbatim>\<open>as boolean\<close> of the
  source check nothing.

  What the decoder takes from its surroundings: \<^verbatim>\<open>JSON.parse\<close> (\<open>None\<close> when it
  throws), \<^verbatim>\<open>JSON.stringify\<close>, the clock read by \<^verbatim>\<open>Date.now()\<close> and
  \<^verbatim>\<open>new Date()\<close> during one decoding, and \<^verbatim>\<open>getEventType\<close> as it is called at run
  time, on whatever value the step id turned out to be.
\<close>

record env =
  jsonParse :: "string \<Rightarrow> jsval option"
  jsonStringify :: "jsval \<Rightarrow> string"
  dateNow :: real
  eventType :: "jsval \<Rightarrow> error + event_type"

text \<open>\<^verbatim>\<open>a || b || ... || z\<close> and \<^verbatim>\<open>a ?? b ?? ... ?? z\<close>: the first operand that
  is truthy, or not nullish, and the last one when there is none.\<close>

fun js_or_list :: "jsval list \<Rightarrow> jsval" where
  "js_or_list [] = JUndefined"
| "js_or_list [v] = v"
| "js_or_list (v # w # vs) = (if truthy v then v else js_or_list (w # vs))"

fun js_coalesce_list :: "jsval list \<Rightarrow> jsval" where
  "js_coalesce_list [] = JUndefined"
| "js_coalesce_list [v] = v"
| "js_coalesce_list (v # w # vs) = (if nullish v then js_coalesce_list (w # vs) else v)"

text \<open>Lines 159 to 188 of \<^verbatim>\<open>parseEventPayload\<close>: the step id of a record, and its
  event.\<close>

definition stepIdOf :: "jsval \<Rightarrow> jsval \<Rightarrow> jsval" where
  "stepIdOf record fallback =
     js_or_list
       [getProp record ''step_id'', getProp record ''stepId'', getProp record ''step-id'',
        getProp record ''eventID'', getProp record ''EventID'', getProp record ''SeqID'',
        getProp record ''seqId'', optProp fallback ''eventID'', optProp fallback ''EventID'',
        optProp fallback ''SeqID'', JStr ''unknown'']"

definition eventOfRecord :: "env \<Rightarrow> jsval \<Rightarrow> jsval \<Rightarrow> error + job_event option" where
  "eventOfRecord E record fallback =
     (if nullish record then Inl TypeError
      else
        let stepId = stepIdOf record fallback;
            msg = js_or_list
              [getProp record ''message'', getProp record ''msg'', JStr (jsonStringify E record)];
            fin = js_coalesce_list
              [getProp record ''finished'', getProp record ''Finished'', JBool False];
            ts = js_or_list
              [getProp record ''timestamp'', getProp record ''Timestamp'',
               optProp fallback ''timestamp'', optProp fallback ''Timestamp'', JNum (dateNow E)]
        in case eventType E stepId of
             Inl e \<Rightarrow> Inl e
           | Inr k \<Rightarrow> Inr (Some \<lparr>step_id = stepId, message = msg, finished = fin,
                                timestamp = ts, type = k\<rparr>))"

definition parseEventPayload :: "env \<Rightarrow> jsval \<Rightarrow> jsval \<Rightarrow> error + job_event option" where
  "parseEventPayload E payload fallback =
     (if nullish payload then Inr None
      else case payload of
        JStr s \<Rightarrow>
          (let trimmed = trim s in
           if trimmed = [] then Inr None
           else case jsonParse E trimmed of
             None \<Rightarrow>
               (case eventType E (JStr []) of
                  Inl e \<Rightarrow> Inl e
                | Inr k \<Rightarrow> Inr (Some \<lparr>step_id = JStr ''unknown'', message = JStr trimmed,
                                     finished = JBool False, timestamp = JNum (dateNow E),
                                     type = k\<rparr>))
           | Some data \<Rightarrow> eventOfRecord E data fallback)
      | _ \<Rightarrow> eventOfRecord E payload fallback)"

record sse_entry =
  sse_id :: jsval
  sse_data :: jsval

record sse_parser =
  events :: "sse_entry list"
  currentId :: jsval
  dataLines :: "string list"

definition pushEvent :: "sse_parser \<Rightarrow> sse_parser" where
  "pushEvent p =
     (let q = (if truthy (currentId p) \<or> 0 < length (dataLines p)
               then p\<lparr>events := events p @
                      [\<lparr>sse_id = currentId p, sse_data = JStr (joinLines (dataLines p))\<rparr>]\<rparr>
               else p)
      in q\<lparr>currentId := JUndefined, dataLines := []\<rparr>)"

text \<open>One turn of the loop over the lines.\<close>

definition sseLine :: "sse_parser \<Rightarrow> string \<Rightarrow> sse_parser" where
  "sseLine p line =
     (if line = [] then pushEvent p
      else if startsWith line '':'' then p
      else if startsWith line ''id:'' then p\<lparr>currentId := JStr (trim (drop 3 line))\<rparr>
      else if startsWith line ''data:'' then p\<lparr>dataLines := dataLines p @ [trimStart (drop 5 line)]\<rparr>
      else p)"

definition parseSseText :: "string \<Rightarrow> sse_entry list" where
  "parseSseText text =
     events (pushEvent (foldl sseLine \<lparr>events = [], currentId = JUndefined, dataLines = []\<rparr>
                          (splitLines text)))"

section \<open>The subscription loop\<close>

text \<open>
  The variables of one call of \<^verbatim>\<open>subscribeToJobEvents\<close> and a log of what it did to
  the outside: the calls of \<^verbatim>\<open>onEvent\<close>, \<^verbatim>\<open>onComplete\<close> and
  \<^verbatim>\<open>onError\<close>, and for every request that has been answered the
  \<^verbatim>\<open>Last-Event-ID\<close> header it carried (\<open>JUndefined\<close>: no such header).
\<close>

record subscription =
  lastSeqId :: jsval
  hasConnected :: bool
  aborted :: bool
  onEventCalls :: "job_event list"
  onCompleteCalls :: nat
  onErrorCalls :: "error list"
  requests :: "jsval list"

definition newSubscription :: subscription where
  "newSubscription =
     \<lparr>lastSeqId = JNull, hasConnected = False, aborted = False, onEventCalls = [],
      onCompleteCalls = 0, onErrorCalls = [], requests = []\<rparr>"

definition markConnected :: "subscription \<Rightarrow> subscription" where
  "markConnected st =
     (if \<not> hasConnected st
      then st\<lparr>hasConnected := True, onCompleteCalls := Suc (onCompleteCalls st)\<rparr>
      else st)"

definition onEvent :: "job_event \<Rightarrow> subscription \<Rightarrow> subscription" where
  "onEvent ev st = st\<lparr>onEventCalls := onEventCalls st @ [ev]\<rparr>"

text \<open>
  The functions below return what was thrown, if anything, with the state at that point:
  what a loop did before it threw stays done. A \<^verbatim>\<open>for ... of\<close> loop runs its body
  on the elements in turn and stops at the first throw.
\<close>

fun forEach :: "('a \<Rightarrow> 's \<Rightarrow> error option \<times> 's) \<Rightarrow> 'a list \<Rightarrow> 's \<Rightarrow> error option \<times> 's" where
  "forEach body [] st = (None, st)"
| "forEach body (x # xs) st =
     (case body x st of
        (None, st1) \<Rightarrow> forEach body xs st1
      | (Some e, st1) \<Rightarrow> (Some e, st1))"

text \<open>\<^verbatim>\<open>const event = parseEventPayload(...); if (event) onEvent(event)\<close>\<close>

definition deliver :: "error + job_event option \<Rightarrow> subscription \<Rightarrow> error option \<times> subscription" where
  "deliver parsed st =
     (case parsed of
        Inl e \<Rightarrow> (Some e, st)
      | Inr None \<Rightarrow> (None, st)
      | Inr (Some ev) \<Rightarrow> (None, onEvent ev st))"

text \<open>The body of the loop of \<^verbatim>\<open>emitFromResponse\<close> over the entries of an event
  stream text, and the loop.\<close>

definition emitSseEntry :: "env \<Rightarrow> sse_entry \<Rightarrow> subscription \<Rightarrow> error option \<times> subscription" where
  "emitSseEntry E entry st =
     (let st1 = (if truthy (sse_id entry) then st\<lparr>lastSeqId := sse_id entry\<rparr> else st);
          payload = js_coalesce (sse_data entry) (JStr []);
          fallback = (if truthy (sse_id entry) then JObj [(''SeqID'', sse_id entry)]
                      else JUndefined)
      in deliver (parseEventPayload E payload fallback) st1)"

definition emitSse :: "env \<Rightarrow> sse_entry list \<Rightarrow> subscription \<Rightarrow> error option \<times> subscription" where
  "emitSse E entries st = forEach (emitSseEntry E) entries st"

text \<open>The body of its loop over the items of a parsed body, and the loop.\<close>

definition emitItem :: "env \<Rightarrow> jsval \<Rightarrow> subscription \<Rightarrow> error option \<times> subscription" where
  "emitItem E entry st =
     (if nullish entry then (Some TypeError, st)
      else
        let seqId = js_or_list [getProp entry ''SeqID'', getProp entry ''seqId'', JNull];
            st1 = (if truthy seqId then st\<lparr>lastSeqId := seqId\<rparr> else st);
            payload = js_coalesce (getProp entry ''data'') entry
        in deliver (parseEventPayload E payload entry) st1)"

definition emitItems :: "env \<Rightarrow> jsval list \<Rightarrow> subscription \<Rightarrow> error option \<times> subscription" where
  "emitItems E items st = forEach (emitItem E) items st"

text \<open>
  What \<^verbatim>\<open>for (const entry of items)\<close> runs over: the elements of an array, the
  characters of a string; any other value of these is not iterable.
\<close>

fun iterate :: "jsval \<Rightarrow> error + jsval list" where
  "iterate (JArr xs) = Inr xs"
| "iterate (JStr s) = Inr (map (\<lambda>c. JStr [c]) s)"
| "iterate v = Inl TypeError"

definition emitFromResponse :: "env \<Rightarrow> jsval \<Rightarrow> subscription \<Rightarrow> error option \<times> subscription" where
  "emitFromResponse E raw st =
     (if nullish raw then (None, st)
      else case raw of
        JStr s \<Rightarrow>
          (let trimmed = trim s in
           if trimmed = [] then (None, st)
           else if startsWith trimmed ''id:'' \<or> startsWith trimmed ''data:''
                   \<or> includes_str trimmed (LF # ''data:'')
           then emitSse E (parseSseText trimmed) st
           else deliver (parseEventPayload E (JStr trimmed) JUndefined) st)
      | JArr xs \<Rightarrow> emitItems E xs st
      | _ \<Rightarrow>
          (case iterate (js_or_list [getProp raw ''events'', getProp raw ''items'', JArr [raw]]) of
             Inl e \<Rightarrow> (Some e, st)
           | Inr xs \<Rightarrow> emitItems E xs st))"

text \<open>
  Lines 298 to 302 of \<^verbatim>\<open>poll\<close>: the body is decoded as parsed JSON, and as text when
  parsing or that decoding throws.
\<close>

definition emitBody :: "env \<Rightarrow> string \<Rightarrow> subscription \<Rightarrow> error option \<times> subscription" where
  "emitBody E text st =
     (case (case jsonParse E text of
              None \<Rightarrow> (Some SyntaxError, st)
            | Some v \<Rightarrow> emitFromResponse E v st) of
        (None, st1) \<Rightarrow> (None, st1)
      | (Some e, st1) \<Rightarrow> emitFromResponse E (JStr text) st1)"

text \<open>
  What happens to one request of the loop. \<^verbatim>\<open>fetch\<close> rejects on its own account, or
  it is aborted because the subscription is cancelled while it is under way, or it
  resolves with a status. In the last case \<^verbatim>\<open>response.text()\<close>, where the loop calls
  it, gives the text, rejects, or is aborted by a cancellation in the same way.
\<close>

datatype body_outcome = Text string | BodyRejected error | BodyCancelled

datatype fetch_outcome =
    Rejected error
  | Cancelled
  | Response nat body_outcome

datatype poll_result = Returned | Threw error | Pending

text \<open>\<^verbatim>\<open>String(n)\<close> of a status code.\<close>

fun showNat :: "nat \<Rightarrow> string" where
  "showNat n =
     (if n < 10 then [char_of (48 + n)]
      else showNat (n div 10) @ [char_of (48 + n mod 10)])"

declare showNat.simps [simp del]

definition ok :: "nat \<Rightarrow> bool" where
  "ok status \<longleftrightarrow> 200 \<le> status \<and> status \<le> 299"

definition cancel :: "subscription \<Rightarrow> subscription" where
  "cancel st = st\<lparr>aborted := True\<rparr>"

text \<open>
  One turn of the loop of \<^verbatim>\<open>poll\<close>, from the request to the \<^verbatim>\<open>continue\<close>
  or the end of the body (\<open>Pending\<close>: the loop goes on) or to a throw.
\<close>

definition pollTurn :: "env \<Rightarrow> fetch_outcome \<Rightarrow> subscription \<Rightarrow> poll_result \<times> subscription" where
  "pollTurn E r st =
     (let st1 = st\<lparr>requests := requests st @
                  [if truthy (lastSeqId st) then lastSeqId st else JUndefined]\<rparr>
      in case r of
           Rejected e \<Rightarrow> (Threw e, st1)
         | Cancelled \<Rightarrow> (Threw AbortError, cancel st1)
         | Response status body \<Rightarrow>
             (if status = 204 then (Pending, markConnected st1)
              else if \<not> ok status \<and> status \<noteq> 101 then
                (case body of
                   Text text \<Rightarrow>
                     (Threw (Error (''Events request failed: '' @ showNat status @ '' - '' @ text)),
                      st1)
                 | BodyRejected e \<Rightarrow> (Threw e, st1)
                 | BodyCancelled \<Rightarrow> (Threw AbortError, cancel st1))
              else
                let st2 = markConnected st1
                in case body of
                     Text text \<Rightarrow>
                       (if trim text = [] then (Pending, st2)
                        else case emitBody E text st2 of
                               (None, st3) \<Rightarrow> (Pending, st3)
                             | (Some e, st3) \<Rightarrow> (Threw e, st3))
                   | BodyRejected e \<Rightarrow> (Threw e, st2)
                   | BodyCancelled \<Rightarrow> (Threw AbortError, cancel st2)))"

text \<open>
  The loop, run against the outcomes of its requests in turn. With no outcome left it
  waits for the answer to the request it has sent (\<open>Pending\<close>).
\<close>

fun poll :: "env \<Rightarrow> fetch_outcome list \<Rightarrow> subscription \<Rightarrow> poll_result \<times> subscription" where
  "poll E [] st = (if aborted st then Returned else Pending, st)"
| "poll E (r # rs) st =
     (if aborted st then (Returned, st)
      else case pollTurn E r st of
             (Pending, st1) \<Rightarrow> poll E rs st1
           | (res, st1) \<Rightarrow> (res, st1))"

text \<open>
  \<^verbatim>\<open>subscribeToJobEvents\<close>: the loop is started, and what it throws goes to
  \<^verbatim>\<open>onError\<close> unless its name is \<^verbatim>\<open>AbortError\<close>.
\<close>

definition subscribeToJobEvents :: "env \<Rightarrow> fetch_outcome list \<Rightarrow> poll_result \<times> subscription" where
  "subscribeToJobEvents E outcomes =
     (case poll E outcomes newSubscription of
        (Threw e, st) \<Rightarrow>
          (Threw e, if errorName e \<noteq> ''AbortError''
                    then st\<lparr>onErrorCalls := onErrorCalls st @ [e]\<rparr> else st)
      | (r, st) \<Rightarrow> (r, st))"

section \<open>The run controller\<close>

text \<open>
  The state of the hook \<^verbatim>\<open>useChatJobEvents\<close>: its React state, its refs, and the two
  kinds of resource it holds outside itself, the interval timers of the window that are
  running and the subscriptions that have been opened and not cancelled. A timer is
  named by the number \<^verbatim>\<open>setInterval\<close> returned; a subscription by a number that stands
  for the cancel function \<^verbatim>\<open>subscribeToJobEvents\<close> returned.
\<close>

datatype run_status = Idle | Submitting | Streaming | Success | Failed

datatype connection_status = ConnIdle | Waiting | Querying | Connected | ConnError

record ui_part =
  part_type :: string
  part_text :: string
  part_state :: string

record ui_message =
  message_id :: string
  role :: string
  parts :: "ui_part list"

record chat_run =
  messages :: "ui_message list"
  status :: run_status
  jobId :: "string option"
  error :: "string option"
  tokenEvents :: nat
  eventsConnectionStatus :: connection_status
  eventLog :: "job_event list"
  assistantIdRef :: "string option"
  abortRef :: "nat option"
  pollRef :: "nat option"
  connectedRef :: bool
  intervals :: "nat list"
  subscriptions :: "nat list"

definition cleanup :: "chat_run \<Rightarrow> chat_run" where
  "cleanup c =
     (let c1 = (case abortRef c of
                  Some cancelFn \<Rightarrow>
                    c\<lparr>subscriptions := removeAll cancelFn (subscriptions c), abortRef := None\<rparr>
                | None \<Rightarrow> c);
          c2 = (case pollRef c1 of
                  Some timer \<Rightarrow>
                    c1\<lparr>intervals := removeAll timer (intervals c1), pollRef := None\<rparr>
                | None \<Rightarrow> c1)
      in c2\<lparr>connectedRef := False\<rparr>)"

definition finalizeAssistant :: "chat_run \<Rightarrow> chat_run" where
  "finalizeAssistant c =
     (case assistantIdRef c of
        None \<Rightarrow> c
      | Some assistantId \<Rightarrow>
          if assistantId = [] then c
          else c\<lparr>messages :=
                 map (\<lambda>m. if message_id m \<noteq> assistantId then m
                          else m\<lparr>parts :=
                                 map (\<lambda>p. if part_type p = ''text''
                                          then p\<lparr>part_state := ''done''\<rparr> else p)
                                   (parts m)\<rparr>)
                   (messages c)\<rparr>)"

text \<open>
  The third callback the hook hands to \<^verbatim>\<open>subscribeToJobEvents\<close>, called with the
  error of the stream; the argument is its \<^verbatim>\<open>message\<close>.
\<close>

definition onStreamError :: "string \<Rightarrow> chat_run \<Rightarrow> chat_run" where
  "onStreamError streamErrorMessage c =
     finalizeAssistant
       (c\<lparr>eventsConnectionStatus := ConnError, error := Some streamErrorMessage,
          status := Failed\<rparr>)"

text \<open>
  The handler of a failed status poll in the timer callback, which sits beside it in
  \<^verbatim>\<open>submitPrompt\<close>.
\<close>

definition onPollError :: "string \<Rightarrow> chat_run \<Rightarrow> chat_run" where
  "onPollError pollErrorMessage c =
     finalizeAssistant (cleanup (c\<lparr>error := Some pollErrorMessage, status := Failed\<rparr>))"

definition reset :: "chat_run \<Rightarrow> chat_run" where
  "reset c =
     (cleanup c)\<lparr>assistantIdRef := None, messages := [], status := Idle, jobId := None,
                 error := None, tokenEvents := 0, eventLog := [],
                 eventsConnectionStatus := ConnIdle\<rparr>"

text \<open>
  The two places where the hook takes hold of a resource: in \<^verbatim>\<open>pollOnce\<close>, on the
  first running status, it opens the subscription and keeps its cancel function; at the
  end of \<^verbatim>\<open>submitPrompt\<close> it starts the interval timer and keeps its number.
\<close>

definition openSubscription :: "nat \<Rightarrow> chat_run \<Rightarrow> chat_run" where
  "openSubscription cancelFn c =
     c\<lparr>connectedRef := True, status := Streaming, eventsConnectionStatus := Querying,
       abortRef := Some cancelFn, subscriptions := subscriptions c @ [cancelFn]\<rparr>"

definition startPolling :: "nat \<Rightarrow> chat_run \<Rightarrow> chat_run" where
  "startPolling timer c = c\<lparr>pollRef := Some timer, intervals := intervals c @ [timer]\<rparr>"

text \<open>
  What \<^verbatim>\<open>readJob\<close> answers, and \<^verbatim>\<open>pollOnce\<close> from that answer on: the call
  \<^verbatim>\<open>await readJob(createdJobId)\<close> at its head takes no abort signal, so that nothing
  the hook does in the meantime keeps the rest from running on the state it then finds.
  \<open>cancelFn\<close> is the cancel function of the subscription it opens, if it opens one.
  \<^verbatim>\<open>toLowerCase\<close> is the one of the characters below 256.
\<close>

record job_read =
  read_status :: string
  errorMessage :: "string option"
  finishedAt :: "string option"

definition toLowerCase :: "string \<Rightarrow> string" where
  "toLowerCase s =
     map (\<lambda>c. let n = (of_char c :: nat)
               in if (65 \<le> n \<and> n \<le> 90) \<or> (192 \<le> n \<and> n \<le> 222 \<and> n \<noteq> 215)
                  then char_of (n + 32) else c) s"

definition terminalSuccess :: "string list" where
  "terminalSuccess = [''success'', ''complete'', ''succeeded'']"

definition terminalError :: "string list" where
  "terminalError = [''error'', ''failed'']"

definition nonTerminal :: "string list" where
  "nonTerminal = [''scheduled'', ''pending'', ''running'', ''executing'']"

definition pollOnce :: "job_read \<Rightarrow> nat \<Rightarrow> chat_run \<Rightarrow> chat_run" where
  "pollOnce job cancelFn c =
     (let normalized = toLowerCase (read_status job);
          c1 = (if (normalized = ''running'' \<or> normalized = ''executing'') \<and> \<not> connectedRef c
                then openSubscription cancelFn c else c)
      in if normalized \<in> set terminalSuccess
         then (finalizeAssistant (cleanup c1))\<lparr>status := Success\<rparr>
         else if normalized \<in> set terminalError
         then (finalizeAssistant (cleanup c1))
                \<lparr>status := Failed,
                 error := Some (case errorMessage job of
                                  Some m \<Rightarrow> if m \<noteq> [] then m else ''Chat job '' @ normalized
                                | None \<Rightarrow> ''Chat job '' @ normalized)\<rparr>
         else if normalized \<notin> set nonTerminal
         then (finalizeAssistant (cleanup c1))
                \<lparr>status := Failed,
                 error := Some (''Unexpected job status: ''
                                @ (if normalized \<noteq> [] then normalized else ''unknown''))\<rparr>
         else c1)"

section \<open>Notions used in the statements\<close>

text \<open>
  \<open>touched st st'\<close>: \<open>st'\<close> is \<open>st\<close> with the cursor possibly moved and events
  delivered, and nothing else changed.
\<close>

definition touched :: "subscription \<Rightarrow> subscription \<Rightarrow> bool" where
  "touched st st' \<longleftrightarrow>
     (\<exists>l evs. st' = st\<lparr>lastSeqId := l, onEventCalls := onEventCalls st @ evs\<rparr>)"

definition connectedOnce :: "subscription \<Rightarrow> bool" where
  "connectedOnce st \<longleftrightarrow> onCompleteCalls st = (if hasConnected st then 1 else 0)"

text \<open>The payload of an item of a parsed body, as \<^verbatim>\<open>emitFromResponse\<close> takes it.\<close>

definition itemPayload :: "jsval \<Rightarrow> jsval" where
  "itemPayload entry = js_coalesce (getProp entry ''data'') entry"

definition isString :: "jsval \<Rightarrow> bool" where
  "isString v = (case v of JStr s \<Rightarrow> True | _ \<Rightarrow> False)"

text \<open>
  An event-like record: a JSON object that carries the event itself, that is, whose
  \<^verbatim>\<open>data\<close> member, if it has one, is not a string still to be parsed, and whose
  step id is a string.
\<close>

definition eventLike :: "jsval \<Rightarrow> bool" where
  "eventLike entry =
     (case entry of
        JObj kvs \<Rightarrow>
          (case getProp entry ''data'' of JStr s \<Rightarrow> False | _ \<Rightarrow> True)
          \<and> isString (stepIdOf (itemPayload entry) entry)
      | _ \<Rightarrow> False)"

text \<open>\<^verbatim>\<open>getEventType\<close> returns a kind for every string.\<close>

definition kindGiven :: "env \<Rightarrow> bool" where
  "kindGiven E \<longleftrightarrow> (\<forall>s. \<exists>k. eventType E (JStr s) = Inr k)"

text \<open>
  Event stream texts as a server writes them: frames separated by one blank line, a
  frame being an \<^verbatim>\<open>id:\<close> line, or \<^verbatim>\<open>data:\<close> lines, or the one followed by the
  others. The value of a field is \<open>plain\<close>: not empty, without a line feed, and with
  no white space at either end.
\<close>

record frame =
  frame_id :: "string option"
  frame_data :: "string list"

definition plain :: "string \<Rightarrow> bool" where
  "plain s \<longleftrightarrow> s \<noteq> [] \<and> LF \<notin> set s \<and> \<not> isWhiteSpace (hd s) \<and> \<not> isWhiteSpace (last s)"

definition wellFramed :: "frame \<Rightarrow> bool" where
  "wellFramed f \<longleftrightarrow>
     (case frame_id f of Some i \<Rightarrow> plain i | None \<Rightarrow> frame_data f \<noteq> [])
     \<and> list_all plain (frame_data f)"

definition frameLines :: "frame \<Rightarrow> string list" where
  "frameLines f =
     (case frame_id f of Some i \<Rightarrow> [''id: '' @ i] | None \<Rightarrow> [])
     @ map (\<lambda>d. ''data: '' @ d) (frame_data f)"

fun sseBodyLines :: "frame list \<Rightarrow> string list" where
  "sseBodyLines [] = []"
| "sseBodyLines [f] = frameLines f"
| "sseBodyLines (f # g # fs) = frameLines f @ [] # sseBodyLines (g # fs)"

definition sseBody :: "frame list \<Rightarrow> string" where
  "sseBody fs = joinLines (sseBodyLines fs)"

text \<open>The entry \<^verbatim>\<open>parseSseText\<close> makes of a frame.\<close>

definition frameEntry :: "frame \<Rightarrow> sse_entry" where
  "frameEntry f =
     \<lparr>sse_id = (case frame_id f of Some i \<Rightarrow> JStr i | None \<Rightarrow> JUndefined),
      sse_data = JStr (joinLines (frame_data f))\<rparr>"

text \<open>The fallback \<^verbatim>\<open>emitFromResponse\<close> hands to \<^verbatim>\<open>parseEventPayload\<close> with the
  data of a frame.\<close>

definition frameFallback :: "frame \<Rightarrow> jsval" where
  "frameFallback f = (case frame_id f of Some i \<Rightarrow> JObj [(''SeqID'', JStr i)] | None \<Rightarrow> JUndefined)"


text \<open>A line that \<^verbatim>\<open>split\<close> gives back as it is: no line feed in it and no
  carriage return at its end.\<close>

definition lineOk :: "string \<Rightarrow> bool" where
  "lineOk l \<longleftrightarrow> LF \<notin> set l \<and> (l = [] \<or> last l \<noteq> CR)"

text \<open>The parser of \<^verbatim>\<open>parseSseText\<close> between two frames.\<close>

definition clean :: "sse_parser \<Rightarrow> bool" where
  "clean p \<longleftrightarrow> currentId p = JUndefined \<and> dataLines p = []"


text \<open>What \<^verbatim>\<open>emitFromResponse\<close> does with the entry of a frame: the result of its
  call of \<^verbatim>\<open>parseEventPayload\<close>, and the cursor.\<close>

definition frameEvent :: "env \<Rightarrow> frame \<Rightarrow> error + job_event option" where
  "frameEvent E f =
     parseEventPayload E (JStr (joinLines (frame_data f))) (frameFallback f)"

definition frameCursor :: "frame \<Rightarrow> subscription \<Rightarrow> subscription" where
  "frameCursor f st = (case frame_id f of Some i \<Rightarrow> st\<lparr>lastSeqId := JStr i\<rparr> | None \<Rightarrow> st)"

text \<open>The cursor after a run of frames: the last \<^verbatim>\<open>id:\<close> among them, if any.\<close>

fun lastId :: "frame list \<Rightarrow> jsval \<Rightarrow> jsval" where
  "lastId [] l = l"
| "lastId (f # fs) l = lastId fs (case frame_id f of Some i \<Rightarrow> JStr i | None \<Rightarrow> l)"


text \<open>
  An environment for the examples. \<^verbatim>\<open>JSON.parse\<close> is tabulated on the three JSON
  texts the examples hand to it; every other text they hand to it is not JSON. Their
  records all have a \<^verbatim>\<open>message\<close>, so none reaches \<^verbatim>\<open>JSON.stringify\<close>. The kind of
  a step id is the one of \<open>getEventType\<close> above.
\<close>

definition twoEventsText :: string where
  \<open>twoEventsText =
     ''[{"step_id":"phase:plan","message":"started"},{"step_id":"phase:plan","message":"done","finished":true}]''\<close>

definition twoEvents :: "jsval list" where
  "twoEvents =
     [JObj [(''step_id'', JStr ''phase:plan''), (''message'', JStr ''started'')],
      JObj [(''step_id'', JStr ''phase:plan''), (''message'', JStr ''done''),
            (''finished'', JBool True)]]"

definition tokenText :: string where
  \<open>tokenText = ''{"step_id":"chat:token:1","message":"Hi"}''\<close>

definition tokenRecord :: jsval where
  "tokenRecord = JObj [(''step_id'', JStr ''chat:token:1''), (''message'', JStr ''Hi'')]"

definition sampleEnv :: env where
  "sampleEnv =
     \<lparr>jsonParse = (\<lambda>s. if s = ''null'' then Some JNull
                       else if s = twoEventsText then Some (JArr twoEvents)
                       else if s = tokenText then Some tokenRecord
                       else None),
      jsonStringify = (\<lambda>v. []),
      dateNow = 1000,
      eventType = (\<lambda>v. Inr (case v of JStr s \<Rightarrow> getEventType s | _ \<Rightarrow> Unknown))\<rparr>"

text \<open>A run in the middle of streaming, for the examples.\<close>

definition idleRun :: chat_run where
  "idleRun =
     \<lparr>messages = [], status = Idle, jobId = None, error = None, tokenEvents = 0,
      eventsConnectionStatus = ConnIdle, eventLog = [], assistantIdRef = None,
      abortRef = None, pollRef = None, connectedRef = False, intervals = [],
      subscriptions = []\<rparr>"

definition streamingRun :: chat_run where
  "streamingRun =
     startPolling 1 (openSubscription 1
       (idleRun\<lparr>status := Submitting, jobId := Some ''job-1'',
          assistantIdRef := Some ''a1'',
          messages := [\<lparr>message_id = ''u1'', role = ''user'',
                         parts = [\<lparr>part_type = ''text'', part_text = ''hello'',
                                   part_state = ''done''\<rparr>]\<rparr>,
                       \<lparr>message_id = ''a1'', role = ''assistant'',
                         parts = [\<lparr>part_type = ''text'', part_text = ''Hi'',
                                   part_state = ''streaming''\<rparr>]\<rparr>]\<rparr>))"


text \<open>
  A payload that gives no event: \<^verbatim>\<open>null\<close> or \<^verbatim>\<open>undefined\<close>, or a string that is
  blank once it is trimmed (lines 140 and 145).
\<close>

definition blank :: "jsval \<Rightarrow> bool" where
  "blank payload \<longleftrightarrow> nullish payload \<or> (case payload of JStr s \<Rightarrow> trim s = [] | _ \<Rightarrow> False)"

text \<open>\<^verbatim>\<open>getEventType\<close> returns a kind for this value.\<close>

definition kindAt :: "env \<Rightarrow> jsval \<Rightarrow> bool" where
  "kindAt E v = (case eventType E v of Inr k \<Rightarrow> True | Inl e \<Rightarrow> False)"

text \<open>
  What is asked of a payload and its fallback where \<^verbatim>\<open>parseEventPayload\<close> is said
  not to throw: a string that is not blank is not a JSON text for \<^verbatim>\<open>null\<close>, and
  \<^verbatim>\<open>getEventType\<close> returns a kind where it is called, at the empty string for a
  text that is not JSON and at the step id of the record otherwise.
\<close>

definition decodable :: "env \<Rightarrow> jsval \<Rightarrow> jsval \<Rightarrow> bool" where
  "decodable E payload fallback =
     (case payload of
        JStr s \<Rightarrow>
          trim s = []
          \<or> (case jsonParse E (trim s) of
                None \<Rightarrow> kindAt E (JStr [])
              | Some v \<Rightarrow> \<not> nullish v \<and> kindAt E (stepIdOf v fallback))
      | _ \<Rightarrow> nullish payload \<or> kindAt E (stepIdOf payload fallback))"

text \<open>
  The payload and the fallback \<^verbatim>\<open>emitFromResponse\<close> hands to
  \<^verbatim>\<open>parseEventPayload\<close> for an entry of an event stream text, the cursor after a run
  of entries, and the test by which it takes a text for an event stream (line 233).
\<close>

definition entryPayload :: "sse_entry \<Rightarrow> jsval" where
  "entryPayload entry = js_coalesce (sse_data entry) (JStr [])"

definition entryFallback :: "sse_entry \<Rightarrow> jsval" where
  "entryFallback entry =
     (if truthy (sse_id entry) then JObj [(''SeqID'', sse_id entry)] else JUndefined)"

fun lastEntryId :: "sse_entry list \<Rightarrow> jsval \<Rightarrow> jsval" where
  "lastEntryId [] l = l"
| "lastEntryId (e # es) l = lastEntryId es (if truthy (sse_id e) then sse_id e else l)"

definition sseText :: "string \<Rightarrow> bool" where
  "sseText s \<longleftrightarrow>
     (let trimmed = trim s
      in startsWith trimmed ''id:'' \<or> startsWith trimmed ''data:''
         \<or> includes_str trimmed (LF # ''data:''))"

text \<open>
  Frames whose \<^verbatim>\<open>data:\<close> lines may have an empty value, written \<^verbatim>\<open>data:\<close>, and
  the text of such frames, separated by one blank line. \<open>noData\<close>: the frame has no
  data line with a value in it.
\<close>

definition fieldValue :: "string \<Rightarrow> bool" where
  "fieldValue v \<longleftrightarrow> v = [] \<or> plain v"

definition framed :: "frame \<Rightarrow> bool" where
  "framed f \<longleftrightarrow>
     (case frame_id f of Some i \<Rightarrow> plain i | None \<Rightarrow> frame_data f \<noteq> [])
     \<and> list_all fieldValue (frame_data f)"

definition dataLine :: "string \<Rightarrow> string" where
  "dataLine d = (if d = [] then ''data:'' else ''data: '' @ d)"

definition frameText :: "frame \<Rightarrow> string list" where
  "frameText f =
     (case frame_id f of Some i \<Rightarrow> [''id: '' @ i] | None \<Rightarrow> [])
     @ map dataLine (frame_data f)"

fun bodyLines :: "frame list \<Rightarrow> string list" where
  "bodyLines [] = []"
| "bodyLines [f] = frameText f"
| "bodyLines (f # g # fs) = frameText f @ [] # bodyLines (g # fs)"

definition bodyText :: "frame list \<Rightarrow> string" where
  "bodyText fs = joinLines (bodyLines fs)"

definition noData :: "frame \<Rightarrow> bool" where
  "noData f \<longleftrightarrow> list_all (\<lambda>d. d = []) (frame_data f)"

text \<open>A line that can stand first or last in a text without being touched by
  \<^verbatim>\<open>trim\<close>, and by which the text is taken for an event stream.\<close>

definition edgeLine :: "string \<Rightarrow> bool" where
  "edgeLine l \<longleftrightarrow>
     l \<noteq> [] \<and> \<not> isWhiteSpace (hd l) \<and> \<not> isWhiteSpace (last l)
     \<and> (startsWith l ''id:'' \<or> startsWith l ''data:'')"






text \<open>
  More examples: an array of a record, an envelope whose \<^verbatim>\<open>data\<close> is the JSON text
  of a record, and a record whose \<^verbatim>\<open>data\<close> is the empty string; three frames, the
  second with an empty \<^verbatim>\<open>data:\<close> line; a record that carries its time stamp; and two
  answers of \<^verbatim>\<open>readJob\<close>.
\<close>

definition sampleItems :: "jsval list" where
  "sampleItems =
     [JObj [(''step_id'', JStr ''phase:plan''), (''message'', JStr ''started'')],
      JObj [(''SeqID'', JStr ''k2''), (''data'', JStr tokenText)],
      JObj [(''SeqID'', JStr ''k3''), (''step_id'', JStr ''phase:a''), (''message'', JStr ''m''),
            (''data'', JStr [])]]"

definition threeFrames :: "frame list" where
  "threeFrames = [\<lparr>frame_id = Some ''7'', frame_data = [tokenText]\<rparr>,
                  \<lparr>frame_id = Some ''8'', frame_data = [[]]\<rparr>,
                  \<lparr>frame_id = Some ''9'', frame_data = [''hello'', ''world'']\<rparr>]"


definition runningJob :: job_read where
  "runningJob = \<lparr>read_status = ''Running'', errorMessage = None, finishedAt = None\<rparr>"

definition failedJob :: job_read where
  "failedJob = \<lparr>read_status = ''failed'', errorMessage = None, finishedAt = None\<rparr>"

section \<open>Auxiliary facts\<close>

lemma touched_refl: "touched st st"
  unfolding touched_def by (rule exI [of _ "lastSeqId st"], rule exI [of _ "[]"]) simp

lemma touched_trans: "touched a b \<Longrightarrow> touched b c \<Longrightarrow> touched a c"
  unfolding touched_def by (elim exE) (simp, blast)

lemma touched_cursor: "touched st (st\<lparr>lastSeqId := l\<rparr>)"
  unfolding touched_def by (rule exI [of _ l], rule exI [of _ "[]"]) simp

lemma touched_onEvent: "touched st (onEvent ev st)"
  unfolding touched_def onEvent_def
  by (rule exI [of _ "lastSeqId st"], rule exI [of _ "[ev]"]) simp

lemma forEach_rel:
  assumes step: "\<And>x s. R s (snd (body x s))"
    and refl: "\<And>s. R s s"
    and trans: "\<And>a b c. R a b \<Longrightarrow> R b c \<Longrightarrow> R a c"
  shows "R st (snd (forEach body xs st))"
proof (induction xs arbitrary: st)
  case Nil
  show ?case by (simp add: refl)
next
  case (Cons x xs)
  obtain r s1 where b: "body x st = (r, s1)" by (cases "body x st")
  have a: "R st s1" using step [of st x] b by simp
  show ?case
  proof (cases r)
    case None
    then show ?thesis using b trans [OF a Cons.IH [of s1]] by simp
  next
    case (Some e)
    then show ?thesis using b a by simp
  qed
qed

lemma deliver_touched: "touched st s1 \<Longrightarrow> touched st (snd (deliver parsed s1))"
  unfolding deliver_def
  by (auto split: sum.splits option.splits intro: touched_trans [OF _ touched_onEvent])

lemma emitSseEntry_touched: "touched st (snd (emitSseEntry E entry st))"
  unfolding emitSseEntry_def Let_def
  by (rule deliver_touched) (simp add: touched_refl touched_cursor)

lemma emitItem_touched: "touched st (snd (emitItem E entry st))"
proof (cases "nullish entry")
  case True
  then show ?thesis by (simp add: emitItem_def touched_refl)
next
  case False
  have "touched st (snd (deliver p (if c then st\<lparr>lastSeqId := l\<rparr> else st)))" for p c l
    by (rule deliver_touched) (simp add: touched_refl touched_cursor)
  then show ?thesis
    using False unfolding emitItem_def Let_def by (simp del: js_or_list.simps)
qed

lemma emitSse_touched: "touched st (snd (emitSse E es st))"
  unfolding emitSse_def
  by (rule forEach_rel [where R = touched]) (auto intro: emitSseEntry_touched touched_refl touched_trans)

lemma emitItems_touched: "touched st (snd (emitItems E xs st))"
  unfolding emitItems_def
  by (rule forEach_rel [where R = touched]) (auto intro: emitItem_touched touched_refl touched_trans)

lemma emitFromResponse_touched: "touched st (snd (emitFromResponse E raw st))"
  unfolding emitFromResponse_def
  by (simp add: Let_def touched_refl deliver_touched emitSse_touched emitItems_touched
      split: jsval.splits sum.splits del: js_or_list.simps)

lemma emitBody_touched: "touched st (snd (emitBody E text st))"
proof (cases "jsonParse E text")
  case None
  then show ?thesis by (simp add: emitBody_def emitFromResponse_touched)
next
  case (Some v)
  obtain r s1 where b: "emitFromResponse E v st = (r, s1)" by (cases "emitFromResponse E v st")
  have a: "touched st s1" using emitFromResponse_touched [of st E v] b by simp
  show ?thesis
  proof (cases r)
    case None
    then show ?thesis using Some b a by (simp add: emitBody_def)
  next
    case (Some e)
    show ?thesis using \<open>jsonParse E text = Some v\<close> Some b
        touched_trans [OF a emitFromResponse_touched [of s1 E "JStr text"]]
      by (simp add: emitBody_def)
  qed
qed

lemma touchedD:
  assumes "touched st st'"
  shows "hasConnected st' = hasConnected st" "aborted st' = aborted st"
    "onCompleteCalls st' = onCompleteCalls st" "onErrorCalls st' = onErrorCalls st"
    "requests st' = requests st"
  using assms unfolding touched_def by auto

lemma markConnected_fields [simp]:
  "onErrorCalls (markConnected st) = onErrorCalls st"
  "requests (markConnected st) = requests st"
  "aborted (markConnected st) = aborted st"
  "lastSeqId (markConnected st) = lastSeqId st"
  "onEventCalls (markConnected st) = onEventCalls st"
  "hasConnected (markConnected st)"
  by (simp_all add: markConnected_def)

lemma cancel_fields [simp]:
  "onErrorCalls (cancel st) = onErrorCalls st"
  "requests (cancel st) = requests st"
  "aborted (cancel st)"
  "hasConnected (cancel st) = hasConnected st"
  "onCompleteCalls (cancel st) = onCompleteCalls st"
  by (simp_all add: cancel_def)

lemma connectedOnce_markConnected: "connectedOnce st \<Longrightarrow> connectedOnce (markConnected st)"
  by (simp add: connectedOnce_def markConnected_def)

lemma connectedOnce_touched: "touched st st' \<Longrightarrow> connectedOnce st \<Longrightarrow> connectedOnce st'"
  by (simp add: connectedOnce_def touchedD)

lemma emitBody_fields:
  assumes "emitBody E tx st = (r, st')"
  shows "onErrorCalls st' = onErrorCalls st" "requests st' = requests st"
    "hasConnected st' = hasConnected st" "onCompleteCalls st' = onCompleteCalls st"
    "aborted st' = aborted st"
  using emitBody_touched [of st E tx] assms by (simp_all add: touchedD)

lemma emitBody_connectedOnce:
  "connectedOnce st \<Longrightarrow> connectedOnce (snd (emitBody E tx st))"
  using emitBody_touched [of st E tx] by (rule connectedOnce_touched)

lemma connectedOnce_cancel: "connectedOnce st \<Longrightarrow> connectedOnce (cancel st)"
  by (simp add: connectedOnce_def)

lemma connectedOnce_requests: "connectedOnce st \<Longrightarrow> connectedOnce (st\<lparr>requests := rq\<rparr>)"
  by (simp add: connectedOnce_def)

lemma pollTurn_onErrorCalls: "onErrorCalls (snd (pollTurn E r st)) = onErrorCalls st"
  unfolding pollTurn_def Let_def
  by (auto split: fetch_outcome.splits body_outcome.splits prod.splits option.splits
      dest: emitBody_fields(1))

lemma pollTurn_requests:
  "requests (snd (pollTurn E r st)) =
     requests st @ [if truthy (lastSeqId st) then lastSeqId st else JUndefined]"
  unfolding pollTurn_def Let_def
  by (auto split: fetch_outcome.splits body_outcome.splits prod.splits option.splits
      dest: emitBody_fields(2))

lemma pollTurn_connectedOnce:
  assumes "connectedOnce st"
  shows "connectedOnce (snd (pollTurn E r st))"
proof -
  define st1 where "st1 = st\<lparr>requests := requests st @
      [if truthy (lastSeqId st) then lastSeqId st else JUndefined]\<rparr>"
  have c1: "connectedOnce st1" unfolding st1_def using assms by (rule connectedOnce_requests)
  have c2: "connectedOnce (markConnected st1)" using c1 by (rule connectedOnce_markConnected)
  have c3: "connectedOnce (snd (emitBody E tx (markConnected st1)))" for tx
    using c2 by (rule emitBody_connectedOnce)
  have eq: "pollTurn E r st =
     (case r of
           Rejected e \<Rightarrow> (Threw e, st1)
         | Cancelled \<Rightarrow> (Threw AbortError, cancel st1)
         | Response code body \<Rightarrow>
             (if code = 204 then (Pending, markConnected st1)
              else if \<not> ok code \<and> code \<noteq> 101 then
                (case body of
                   Text tx \<Rightarrow>
                     (Threw (Error (''Events request failed: '' @ showNat code @ '' - '' @ tx)),
                      st1)
                 | BodyRejected e \<Rightarrow> (Threw e, st1)
                 | BodyCancelled \<Rightarrow> (Threw AbortError, cancel st1))
              else
                  case body of
                     Text tx \<Rightarrow>
                       (if trim tx = [] then (Pending, markConnected st1)
                        else case emitBody E tx (markConnected st1) of
                               (None, st3) \<Rightarrow> (Pending, st3)
                             | (Some e, st3) \<Rightarrow> (Threw e, st3))
                   | BodyRejected e \<Rightarrow> (Threw e, markConnected st1)
                   | BodyCancelled \<Rightarrow> (Threw AbortError, cancel (markConnected st1))))"
    unfolding pollTurn_def st1_def Let_def by (rule refl)
  have snd_case: "snd (case p of (None, s) \<Rightarrow> (Pending, s) | (Some e, s) \<Rightarrow> (Threw e, s)) = snd p"
    for p :: "error option \<times> subscription"
    by (cases p) (simp split: option.splits)
  show ?thesis
    unfolding eq using c1 c2 c3
    by (simp add: connectedOnce_cancel snd_case split: fetch_outcome.splits body_outcome.splits)
qed

lemma poll_onErrorCalls: "onErrorCalls (snd (poll E rs st)) = onErrorCalls st"
proof (induction rs arbitrary: st)
  case Nil
  show ?case by simp
next
  case (Cons r rs)
  obtain res st1 where t: "pollTurn E r st = (res, st1)" by (cases "pollTurn E r st")
  have e: "onErrorCalls st1 = onErrorCalls st" using pollTurn_onErrorCalls [of E r st] t by simp
  show ?case using t e Cons.IH [of st1] by (cases res) simp_all
qed

lemma poll_connectedOnce: "connectedOnce st \<Longrightarrow> connectedOnce (snd (poll E rs st))"
proof (induction rs arbitrary: st)
  case Nil
  then show ?case by simp
next
  case (Cons r rs)
  obtain res st1 where t: "pollTurn E r st = (res, st1)" by (cases "pollTurn E r st")
  have e: "connectedOnce st1" using pollTurn_connectedOnce [OF Cons.prems, of E r] t by simp
  show ?case using t e Cons.prems Cons.IH [of st1] by (cases res) simp_all
qed

lemma poll_append:
  "poll E pre st = (Pending, st1) \<Longrightarrow> poll E (pre @ rest) st = poll E rest st1"
proof (induction pre arbitrary: st)
  case Nil
  then show ?case by (cases rest) (simp_all split: if_splits)
next
  case (Cons r rs)
  obtain res st2 where t: "pollTurn E r st = (res, st2)" by (cases "pollTurn E r st")
  from Cons.prems have na: "\<not> aborted st" by (simp split: if_splits)
  from Cons.prems t na have res: "res = Pending" by (cases res) simp_all
  from Cons.prems t na res have "poll E rs st2 = (Pending, st1)" by simp
  from Cons.IH [OF this] show ?case using t na res by simp
qed

lemma poll_Pending_requests:
  "poll E pre st = (Pending, st1) \<Longrightarrow> length (requests st1) = length (requests st) + length pre"
proof (induction pre arbitrary: st)
  case Nil
  then show ?case by (simp split: if_splits)
next
  case (Cons r rs)
  obtain res st2 where t: "pollTurn E r st = (res, st2)" by (cases "pollTurn E r st")
  from Cons.prems have na: "\<not> aborted st" by (simp split: if_splits)
  from Cons.prems t na have res: "res = Pending" by (cases res) simp_all
  from Cons.prems t na res have p: "poll E rs st2 = (Pending, st1)" by simp
  have "length (requests st2) = Suc (length (requests st))"
    using pollTurn_requests [of E r st] t by simp
  with Cons.IH [OF p] show ?case by simp
qed

lemma poll_Pending_alive: "poll E pre st = (Pending, st1) \<Longrightarrow> \<not> aborted st1"
proof (induction pre arbitrary: st)
  case Nil
  then show ?case by (simp split: if_splits)
next
  case (Cons r rs)
  obtain res st2 where t: "pollTurn E r st = (res, st2)" by (cases "pollTurn E r st")
  from Cons.prems have na: "\<not> aborted st" by (simp split: if_splits)
  from Cons.prems t na have res: "res = Pending" by (cases res) simp_all
  from Cons.prems t na res have p: "poll E rs st2 = (Pending, st1)" by simp
  from Cons.IH [OF p] show ?case .
qed

lemma poll_over:
  "fst (poll E pre st) \<noteq> Pending \<Longrightarrow> poll E (pre @ rest) st = poll E pre st"
proof (induction pre arbitrary: st)
  case Nil
  then show ?case by (cases rest) (simp_all split: if_splits)
next
  case (Cons r rs)
  obtain res st2 where t: "pollTurn E r st = (res, st2)" by (cases "pollTurn E r st")
  show ?case
  proof (cases "aborted st")
    case True
    then show ?thesis by simp
  next
    case False
    show ?thesis
    proof (cases res)
      case Pending
      with Cons.prems t False have "fst (poll E rs st2) \<noteq> Pending" by simp
      from Cons.IH [OF this] show ?thesis using t False Pending by simp
    qed (use t False in simp_all)
  qed
qed

lemma newSubscription_fields [simp]:
  "onErrorCalls newSubscription = []" "requests newSubscription = []"
  "\<not> aborted newSubscription" "\<not> hasConnected newSubscription"
  "onCompleteCalls newSubscription = 0" "onEventCalls newSubscription = []"
  "lastSeqId newSubscription = JNull"
  by (simp_all add: newSubscription_def)

lemma eventOfRecord_returns:
  assumes "kindGiven E" and "\<not> nullish r" and "isString (stepIdOf r fallback)"
  shows "\<exists>ev. eventOfRecord E r fallback = Inr (Some ev)"
proof -
  obtain s where s: "stepIdOf r fallback = JStr s"
    using assms(3) by (cases "stepIdOf r fallback") (simp_all add: isString_def)
  obtain k where "eventType E (JStr s) = Inr k"
    using assms(1) unfolding kindGiven_def by blast
  then show ?thesis
    using assms(2) s unfolding eventOfRecord_def Let_def
    by (simp del: js_or_list.simps js_coalesce_list.simps)
qed

lemma eventLike_payload:
  assumes "eventLike entry"
  shows "\<not> nullish (itemPayload entry)" and "\<forall>s. itemPayload entry \<noteq> JStr s" and "\<not> nullish entry"
    and "isString (stepIdOf (itemPayload entry) entry)"
  using assms unfolding eventLike_def itemPayload_def js_coalesce_def
  by (auto split: jsval.splits option.splits)

lemma parseEventPayload_eventLike:
  assumes "kindGiven E" and "eventLike entry"
  shows "\<exists>ev. parseEventPayload E (itemPayload entry) entry = Inr (Some ev)"
proof -
  have a: "\<not> nullish (itemPayload entry)" and b: "\<forall>s. itemPayload entry \<noteq> JStr s"
    using eventLike_payload [OF assms(2)] by blast+
  have "parseEventPayload E (itemPayload entry) entry = eventOfRecord E (itemPayload entry) entry"
    using a b unfolding parseEventPayload_def by (cases "itemPayload entry") simp_all
  then show ?thesis
    using eventOfRecord_returns [OF assms(1) a eventLike_payload(4) [OF assms(2)]] by simp
qed

lemma emitItem_eventLike:
  assumes "kindGiven E" and "eventLike entry"
  shows "\<exists>ev st1. emitItem E entry st = (None, st1)
           \<and> onEventCalls st1 = onEventCalls st @ [ev]
           \<and> parseEventPayload E (itemPayload entry) entry = Inr (Some ev)"
proof -
  obtain ev where ev: "parseEventPayload E (itemPayload entry) entry = Inr (Some ev)"
    using parseEventPayload_eventLike [OF assms] by blast
  have n: "\<not> nullish entry" using eventLike_payload(3) [OF assms(2)] .
  show ?thesis
    using ev n unfolding emitItem_def Let_def deliver_def onEvent_def itemPayload_def
    by (simp del: js_or_list.simps)
qed

lemma emitItems_eventLike:
  assumes "kindGiven E" and "list_all eventLike xs"
  shows "\<exists>evs st1. emitItems E xs st = (None, st1)
           \<and> onEventCalls st1 = onEventCalls st @ evs
           \<and> map (\<lambda>entry. parseEventPayload E (itemPayload entry) entry) xs
               = map (\<lambda>ev. Inr (Some ev)) evs"
  using assms(2)
proof (induction xs arbitrary: st)
  case Nil
  show ?case by (simp add: emitItems_def)
next
  case (Cons x xs)
  from Cons.prems have x: "eventLike x" and xs: "list_all eventLike xs" by simp_all
  obtain ev st1 where s: "emitItem E x st = (None, st1)"
      "onEventCalls st1 = onEventCalls st @ [ev]"
      "parseEventPayload E (itemPayload x) x = Inr (Some ev)"
    using emitItem_eventLike [OF assms(1) x] by blast
  obtain evs st2 where r: "emitItems E xs st1 = (None, st2)"
      "onEventCalls st2 = onEventCalls st1 @ evs"
      "map (\<lambda>entry. parseEventPayload E (itemPayload entry) entry) xs
               = map (\<lambda>ev. Inr (Some ev)) evs"
    using Cons.IH [OF xs] by blast
  have "emitItems E (x # xs) st = (None, st2)"
    using s(1) r(1) by (simp add: emitItems_def)
  moreover have "onEventCalls st2 = onEventCalls st @ (ev # evs)"
    using s(2) r(2) by simp
  moreover have "map (\<lambda>entry. parseEventPayload E (itemPayload entry) entry) (x # xs)
               = map (\<lambda>ev. Inr (Some ev)) (ev # evs)"
    using s(3) r(3) by simp
  ultimately show ?case by blast
qed

lemma kindGiven_sampleEnv: "kindGiven sampleEnv"
  by (simp add: kindGiven_def sampleEnv_def)

lemma parseEventPayload_blank: "trim s = [] \<Longrightarrow> parseEventPayload E (JStr s) fb = Inr None"
  by (simp add: parseEventPayload_def)


lemma parseEventPayload_null:
  assumes "trim s \<noteq> []" and "jsonParse E (trim s) = Some v" and "nullish v"
  shows "parseEventPayload E (JStr s) fb = Inl TypeError"
  using assms by (simp add: parseEventPayload_def eventOfRecord_def)

lemma trim_data_null: "trim ''data: null'' = ''data: null''"
  by (simp add: trim_def trimStart_def trimEnd_def isWhiteSpace_def)

lemma trim_null: "trim ''null'' = ''null''"
  by (simp add: trim_def trimStart_def trimEnd_def isWhiteSpace_def)

lemma parseSseText_data_null:
  "parseSseText ''data: null'' = [\<lparr>sse_id = JUndefined, sse_data = JStr ''null''\<rparr>]"
  by (simp add: parseSseText_def splitLines_def LF_def CR_def sseLine_def startsWith_def
      pushEvent_def trimStart_def isWhiteSpace_def)

lemma subscribe_onCompleteCalls:
  "onCompleteCalls (snd (subscribeToJobEvents E outcomes)) = onCompleteCalls (snd (poll E outcomes newSubscription))"
  unfolding subscribeToJobEvents_def
  by (cases "poll E outcomes newSubscription")
     (simp split: poll_result.splits)

lemma connectedOnce_new: "connectedOnce newSubscription"
  by (simp add: connectedOnce_def)

lemma connectedOnce_le: "connectedOnce st \<Longrightarrow> onCompleteCalls st \<le> 1"
  by (simp add: connectedOnce_def)

lemma emitBody_parsed_array:
  assumes "jsonParse E body = Some (JArr xs)" and "kindGiven E" and "list_all eventLike xs"
  shows "\<exists>evs st1. emitBody E body st = (None, st1)
           \<and> st1 = st\<lparr>lastSeqId := lastSeqId st1, onEventCalls := onEventCalls st @ evs\<rparr>
           \<and> map (\<lambda>entry. parseEventPayload E (itemPayload entry) entry) xs
               = map (\<lambda>ev. Inr (Some ev)) evs"
proof -
  obtain evs st1 where r: "emitItems E xs st = (None, st1)"
      "onEventCalls st1 = onEventCalls st @ evs"
      "map (\<lambda>entry. parseEventPayload E (itemPayload entry) entry) xs
               = map (\<lambda>ev. Inr (Some ev)) evs"
    using emitItems_eventLike [OF assms(2,3)] by blast
  have t: "touched st st1" using emitItems_touched [of st E xs] r(1) by simp
  have "st1 = st\<lparr>lastSeqId := lastSeqId st1, onEventCalls := onEventCalls st @ evs\<rparr>"
    using t r(2) unfolding touched_def by auto
  moreover have "emitBody E body st = (None, st1)"
    using assms(1) r(1) by (simp add: emitBody_def emitFromResponse_def)
  ultimately show ?thesis using r(3) by blast
qed

lemma trim_twoEventsText: "trim twoEventsText \<noteq> []"
  by (simp add: twoEventsText_def trim_def trimStart_def trimEnd_def isWhiteSpace_def)

lemma subscribe_Pending:
  "poll E pre newSubscription = (Pending, st) \<Longrightarrow> onErrorCalls (snd (subscribeToJobEvents E pre)) = []"
  using poll_onErrorCalls [of E pre newSubscription]
  by (simp add: subscribeToJobEvents_def)

lemma aborted_turn_silent:
  assumes "\<And>st. fst (pollTurn E r st) = Threw AbortError"
  shows "onErrorCalls (snd (subscribeToJobEvents E (pre @ r # rest)))
     = onErrorCalls (snd (subscribeToJobEvents E pre))"
proof (cases "fst (poll E pre newSubscription) = Pending")
  case True
  then obtain st where p: "poll E pre newSubscription = (Pending, st)"
    by (cases "poll E pre newSubscription") simp
  have na: "\<not> aborted st" using p by (rule poll_Pending_alive)
  have e: "onErrorCalls st = []" using poll_onErrorCalls [of E pre newSubscription] p by simp
  obtain st1 where t: "pollTurn E r st = (Threw AbortError, st1)"
    using assms [of st] by (cases "pollTurn E r st") simp
  have e1: "onErrorCalls st1 = []" using pollTurn_onErrorCalls [of E r st] t e by simp
  have "poll E (pre @ r # rest) newSubscription = poll E (r # rest) st"
    using p by (rule poll_append)
  then have "onErrorCalls (snd (subscribeToJobEvents E (pre @ r # rest))) = []"
    using na t e1 by (simp add: subscribeToJobEvents_def)
  then show ?thesis using subscribe_Pending [OF p] by simp
next
  case False
  then have "poll E (pre @ r # rest) newSubscription = poll E pre newSubscription"
    by (rule poll_over)
  then show ?thesis by (simp add: subscribeToJobEvents_def)
qed

lemma cancelled_silent:
  "onErrorCalls (snd (subscribeToJobEvents E (pre @ Cancelled # rest)))
     = onErrorCalls (snd (subscribeToJobEvents E pre))"
  by (rule aborted_turn_silent) (simp add: pollTurn_def)

lemma body_cancelled_silent:
  assumes "code \<noteq> 204"
  shows "onErrorCalls (snd (subscribeToJobEvents E (pre @ Response code BodyCancelled # rest)))
     = onErrorCalls (snd (subscribeToJobEvents E pre))"
  by (rule aborted_turn_silent) (simp add: pollTurn_def Let_def assms)

lemma poll_cancelled: "poll E outcomes (cancel st) = (Returned, cancel st)"
  by (cases outcomes) simp_all

lemma cleanup_refs:
  "abortRef (cleanup c) = None" "pollRef (cleanup c) = None" "\<not> connectedRef (cleanup c)"
  "error (cleanup c) = error c" "status (cleanup c) = status c"
  by (simp_all add: cleanup_def Let_def split: option.splits)

lemma dropWhile_hd: "s \<noteq> [] \<Longrightarrow> \<not> P (hd s) \<Longrightarrow> dropWhile P s = s"
  by (cases s) simp_all

lemma trimStart_id: "s \<noteq> [] \<Longrightarrow> \<not> isWhiteSpace (hd s) \<Longrightarrow> trimStart s = s"
  by (simp add: trimStart_def dropWhile_hd)

lemma trimEnd_id: "s \<noteq> [] \<Longrightarrow> \<not> isWhiteSpace (last s) \<Longrightarrow> trimEnd s = s"
  by (simp add: trimEnd_def dropWhile_hd hd_rev)

lemma trim_id: "s \<noteq> [] \<Longrightarrow> \<not> isWhiteSpace (hd s) \<Longrightarrow> \<not> isWhiteSpace (last s) \<Longrightarrow> trim s = s"
  by (simp add: trim_def trimStart_id trimEnd_id)

lemma trim_plain: "plain s \<Longrightarrow> trim s = s"
  by (simp add: plain_def trim_id)

lemma isWhiteSpace_space: "isWhiteSpace CHR '' ''"
  by (simp add: isWhiteSpace_def)

lemma trim_space_plain: "plain s \<Longrightarrow> trim (CHR '' '' # s) = s"
  by (simp add: trim_def trimStart_def isWhiteSpace_space)
     (simp add: plain_def dropWhile_hd trimEnd_id)

lemma trimStart_space_plain: "plain s \<Longrightarrow> trimStart (CHR '' '' # s) = s"
  by (simp add: trimStart_def isWhiteSpace_space plain_def dropWhile_hd)

lemma splitAcc_noLF: "LF \<notin> set s \<Longrightarrow> splitAcc cur s = [rev cur @ s]"
  by (induction cur s rule: splitAcc.induct) auto

lemma splitAcc_line:
  "LF \<notin> set l \<Longrightarrow> l = [] \<or> last l \<noteq> CR \<Longrightarrow>
   splitAcc cur (l @ LF # rest) = (rev cur @ l) # splitAcc [] rest"
proof (induction l arbitrary: cur)
  case Nil
  show ?case by (cases rest) simp_all
next
  case (Cons c l)
  from Cons.prems have c: "c \<noteq> LF" and l: "LF \<notin> set l" by auto
  show ?case
  proof (cases l)
    case Nil
    with Cons.prems have "c \<noteq> CR" by simp
    then show ?thesis using Nil c by (cases rest) simp_all
  next
    case (Cons d l')
    then have d: "d \<noteq> LF" using l by auto
    have ih: "splitAcc (c # cur) (l @ LF # rest) = (rev (c # cur) @ l) # splitAcc [] rest"
      using Cons.prems Cons l by (intro Cons.IH) auto
    have "splitAcc cur ((c # l) @ LF # rest) = splitAcc (c # cur) (l @ LF # rest)"
      using c d Cons by simp
    then show ?thesis using ih by simp
  qed
qed

lemma splitLines_joinLines:
  "ls \<noteq> [] \<Longrightarrow> list_all lineOk ls \<Longrightarrow> splitLines (joinLines ls) = ls"
proof (induction ls rule: joinLines.induct)
  case 1
  then show ?case by simp
next
  case (2 l)
  then show ?case by (simp add: splitLines_def lineOk_def splitAcc_noLF)
next
  case (3 l m ls)
  then have "splitAcc [] (joinLines (m # ls)) = m # ls" by (simp add: splitLines_def)
  then show ?case using 3(3) by (simp add: splitLines_def lineOk_def splitAcc_line)
qed

lemma sseLine_blank: "sseLine p [] = pushEvent p"
  by (simp add: sseLine_def)

lemma sseLine_id: "plain i \<Longrightarrow> sseLine p (''id: '' @ i) = p\<lparr>currentId := JStr i\<rparr>"
  by (simp add: sseLine_def startsWith_def trim_space_plain)

lemma sseLine_data:
  "plain d \<Longrightarrow> sseLine p (''data: '' @ d) = p\<lparr>dataLines := dataLines p @ [d]\<rparr>"
  by (simp add: sseLine_def startsWith_def trimStart_space_plain)

lemma plain_nonempty: "plain i \<Longrightarrow> i \<noteq> []"
  by (simp add: plain_def)



lemma clean_events: "clean p \<Longrightarrow> clean (p\<lparr>events := ev\<rparr>)"
  by (simp add: clean_def)

lemma pushEvent_clean: "clean p \<Longrightarrow> pushEvent p = p"
  by (cases p) (simp add: clean_def pushEvent_def)


lemma isWhiteSpace_CR: "isWhiteSpace CR"
  by (simp add: isWhiteSpace_def CR_def)

lemma lineOk_field:
  assumes "plain v" and "LF \<notin> set pre"
  shows "lineOk (pre @ v)"
  using assms isWhiteSpace_CR unfolding lineOk_def plain_def by auto







lemma joinLines_hd: "ls \<noteq> [] \<Longrightarrow> \<exists>r. joinLines ls = hd ls @ r"
  by (induction ls rule: joinLines.induct) auto

lemma joinLines_last: "ls \<noteq> [] \<Longrightarrow> \<exists>r. joinLines ls = r @ last ls"
proof (induction ls rule: joinLines.induct)
  case (3 l m ls)
  then obtain r where "joinLines (m # ls) = r @ last (m # ls)" by auto
  then have "joinLines (l # m # ls) = (l @ LF # r) @ last (l # m # ls)" by simp
  then show ?case by blast
qed auto














lemma lastId_append: "lastId (fs @ gs) l = lastId gs (lastId fs l)"
  by (induction fs arbitrary: l) simp_all

lemma lastId_last: "fs \<noteq> [] \<Longrightarrow> frame_id (last fs) = Some i \<Longrightarrow> lastId fs l = JStr i"
proof -
  assume a: "fs \<noteq> []" and b: "frame_id (last fs) = Some i"
  have "fs = butlast fs @ [last fs]" using a by simp
  then have "lastId fs l = lastId (butlast fs @ [last fs]) l" by simp
  also have "\<dots> = JStr i" using b by (simp add: lastId_append)
  finally show ?thesis .
qed

lemma lastSeqId_onEvent [simp]: "lastSeqId (onEvent ev st) = lastSeqId st"
  by (simp add: onEvent_def)

lemma onEventCalls_onEvent [simp]: "onEventCalls (onEvent ev st) = onEventCalls st @ [ev]"
  by (simp add: onEvent_def)

lemma frameCursor_fields [simp]:
  "onEventCalls (frameCursor f st) = onEventCalls st"
  "lastSeqId (frameCursor f st) = (case frame_id f of Some i \<Rightarrow> JStr i | None \<Rightarrow> lastSeqId st)"
  by (simp_all add: frameCursor_def split: option.splits)





lemma sampleEnv_parse:
  "jsonParse sampleEnv ''null'' = Some JNull"
  "jsonParse sampleEnv twoEventsText = Some (JArr twoEvents)"
  "jsonParse sampleEnv tokenText = Some tokenRecord"
  "jsonParse sampleEnv ''data: null'' = None"
  "jsonParse sampleEnv ''hello'' = None"
  "jsonParse sampleEnv ''hello\<newline>world'' = None"
  by (simp_all add: sampleEnv_def twoEventsText_def tokenText_def)

lemma sampleEnv_fields:
  "dateNow sampleEnv = 1000"
  "eventType sampleEnv (JStr s) = Inr (getEventType s)"
  by (simp_all add: sampleEnv_def)

lemma plain_samples:
  "plain ''7''" "plain ''8''" "plain ''9''" "plain ''world''" "plain tokenText" "plain ''hello''"
  by (simp_all add: plain_def isWhiteSpace_def LF_def tokenText_def)

lemma trim_sample: "trim ''hello\<newline>world'' = ''hello\<newline>world''"
  by (simp add: trim_def trimStart_def trimEnd_def isWhiteSpace_def)



lemma twoEvents_events:
  "map (\<lambda>entry. parseEventPayload sampleEnv (itemPayload entry) entry) twoEvents =
     map (\<lambda>ev. Inr (Some ev))
     [\<lparr>step_id = JStr ''phase:plan'', message = JStr ''started'', finished = JBool False,
                  timestamp = JNum 1000, type = Phase\<rparr>,
      \<lparr>step_id = JStr ''phase:plan'', message = JStr ''done'', finished = JBool True,
                  timestamp = JNum 1000, type = Phase\<rparr>]"
  by (simp add: twoEvents_def itemPayload_def js_coalesce_def parseEventPayload_def
      sampleEnv_fields eventOfRecord_def stepIdOf_def optProp_def getEventType_def startsWith_def)

lemma delivered_inj:
  "map (\<lambda>ev. Inr (Some ev)) xs = map (\<lambda>ev. Inr (Some ev)) ys \<Longrightarrow> xs = ys"
  by (induction xs arbitrary: ys) auto

lemma first_connect_at_most_once:
  "onCompleteCalls (snd (subscribeToJobEvents E outcomes)) \<le> 1"
  unfolding subscribe_onCompleteCalls
  by (rule connectedOnce_le, rule poll_connectedOnce, rule connectedOnce_new)

lemma first_connect_on_204:
  "onCompleteCalls (snd (subscribeToJobEvents E [Response 204 b])) = 1"
  by (simp add: subscribeToJobEvents_def pollTurn_def markConnected_def)

lemma first_connect_scenario:
  assumes "jsonParse E body = Some (JArr [e1, e2])" and "trim body \<noteq> []"
    and "eventLike e1" and "eventLike e2" and "kindGiven E"
  shows "(\<exists>ev1 ev2 st. subscribeToJobEvents E [Response 204 b, Response 200 (Text body)] = (Pending, st)
           \<and> onCompleteCalls st = 1
           \<and> onEventCalls st = [ev1, ev2]
           \<and> parseEventPayload E (itemPayload e1) e1 = Inr (Some ev1)
           \<and> parseEventPayload E (itemPayload e2) e2 = Inr (Some ev2)
           \<and> onErrorCalls st = [])"
proof -
  define s1 where "s1 = newSubscription\<lparr>hasConnected := True, onCompleteCalls := Suc 0,
      requests := [JUndefined]\<rparr>"
  define s2 where "s2 = newSubscription\<lparr>hasConnected := True, onCompleteCalls := Suc 0,
      requests := [JUndefined, JUndefined]\<rparr>"
  have l: "list_all eventLike [e1, e2]" using assms(3,4) by simp
  obtain evs st1 where r: "emitBody E body s2 = (None, st1)"
      "st1 = s2\<lparr>lastSeqId := lastSeqId st1, onEventCalls := onEventCalls s2 @ evs\<rparr>"
      "map (\<lambda>entry. parseEventPayload E (itemPayload entry) entry) [e1, e2]
               = map (\<lambda>ev. Inr (Some ev)) evs"
    using emitBody_parsed_array [OF assms(1,5) l, of s2] by blast
  from r(3) obtain ev1 ev2 where evs: "evs = [ev1, ev2]"
    "parseEventPayload E (itemPayload e1) e1 = Inr (Some ev1)"
    "parseEventPayload E (itemPayload e2) e2 = Inr (Some ev2)"
    by (cases evs; cases "tl evs"; cases "tl (tl evs)") auto
  have t1: "pollTurn E (Response 204 b) newSubscription = (Pending, s1)"
    by (simp add: pollTurn_def s1_def markConnected_def)
  have t2: "pollTurn E (Response 200 (Text body)) s1 = (Pending, st1)"
    using assms(2) r(1) unfolding s2_def
    by (simp add: pollTurn_def ok_def Let_def s1_def markConnected_def)
  have a1: "\<not> aborted s1" by (simp add: s1_def)
  have a2: "\<not> aborted st1" by (subst r(2)) (simp add: s2_def s1_def)
  have p: "poll E [Response 204 b, Response 200 (Text body)] newSubscription = (Pending, st1)"
    using t1 t2 a1 a2 by simp
  have "subscribeToJobEvents E [Response 204 b, Response 200 (Text body)] = (Pending, st1)"
    using p by (simp add: subscribeToJobEvents_def)
  moreover have "onCompleteCalls st1 = 1" by (subst r(2)) (simp add: s2_def s1_def markConnected_def)
  moreover have "onEventCalls st1 = [ev1, ev2]" by (subst r(2)) (simp add: s2_def s1_def evs(1))
  moreover have "onErrorCalls st1 = []" by (subst r(2)) (simp add: s2_def s1_def)
  ultimately show ?thesis using evs(2,3) by blast
qed

lemma kindAtD: "kindAt E v \<Longrightarrow> \<exists>k. eventType E v = Inr k"
  by (cases "eventType E v") (simp_all add: kindAt_def)

lemma eventOfRecord_kindAt:
  assumes "\<not> nullish r" and "kindAt E (stepIdOf r fb)"
  shows "\<exists>ev. eventOfRecord E r fb = Inr (Some ev)"
  using kindAtD [OF assms(2)] assms(1)
  by (auto simp: eventOfRecord_def Let_def simp del: js_or_list.simps js_coalesce_list.simps)

lemma parseEventPayload_blank_iff:
  assumes "blank p"
  shows "parseEventPayload E p fb = Inr None"
  using assms by (cases p) (auto simp: blank_def parseEventPayload_def Let_def)

lemma parseEventPayload_decodable:
  assumes "decodable E p fb" and "\<not> blank p"
  shows "\<exists>ev. parseEventPayload E p fb = Inr (Some ev)"
proof (cases p)
  case (JStr s)
  then have t: "trim s \<noteq> []" using assms(2) by (simp add: blank_def)
  show ?thesis
  proof (cases "jsonParse E (trim s)")
    case None
    then have "kindAt E (JStr [])" using assms(1) JStr t by (simp add: decodable_def)
    then obtain k where "eventType E (JStr []) = Inr k" using kindAtD by blast
    then show ?thesis using JStr t None by (simp add: parseEventPayload_def Let_def)
  next
    case (Some v)
    then have "\<not> nullish v" "kindAt E (stepIdOf v fb)" using assms(1) JStr t by (simp_all add: decodable_def)
    then obtain ev where "eventOfRecord E v fb = Inr (Some ev)" using eventOfRecord_kindAt by blast
    then show ?thesis using JStr t Some by (simp add: parseEventPayload_def Let_def)
  qed
next
  case JUndefined then show ?thesis using assms(2) by (simp add: blank_def)
next
  case JNull then show ?thesis using assms(2) by (simp add: blank_def)
next
  case (JBool b)
  then have "kindAt E (stepIdOf p fb)" using assms(1) by (simp add: decodable_def)
  then obtain ev where "eventOfRecord E p fb = Inr (Some ev)" using eventOfRecord_kindAt [of p E fb] JBool by auto
  then show ?thesis using JBool by (simp add: parseEventPayload_def)
next
  case (JNum b)
  then have "kindAt E (stepIdOf p fb)" using assms(1) by (simp add: decodable_def)
  then obtain ev where "eventOfRecord E p fb = Inr (Some ev)" using eventOfRecord_kindAt [of p E fb] JNum by auto
  then show ?thesis using JNum by (simp add: parseEventPayload_def)
next
  case (JArr b)
  then have "kindAt E (stepIdOf p fb)" using assms(1) by (simp add: decodable_def)
  then obtain ev where "eventOfRecord E p fb = Inr (Some ev)" using eventOfRecord_kindAt [of p E fb] JArr by auto
  then show ?thesis using JArr by (simp add: parseEventPayload_def)
next
  case (JObj b)
  then have "kindAt E (stepIdOf p fb)" using assms(1) by (simp add: decodable_def)
  then obtain ev where "eventOfRecord E p fb = Inr (Some ev)" using eventOfRecord_kindAt [of p E fb] JObj by auto
  then show ?thesis using JObj by (simp add: parseEventPayload_def)
qed

lemma forEach_deliver:
  assumes body: "\<And>x s. x \<in> set xs \<Longrightarrow> f x s = deliver (dec x) (cur x s)"
    and cur: "\<And>x s. onEventCalls (cur x s) = onEventCalls s"
    and dec: "\<And>x. x \<in> set xs \<Longrightarrow> (if skip x then dec x = Inr None else \<exists>ev. dec x = Inr (Some ev))"
  shows "\<exists>evs st1. forEach f xs st = (None, st1)
           \<and> onEventCalls st1 = onEventCalls st @ evs
           \<and> map dec (filter (\<lambda>x. \<not> skip x) xs) = map (\<lambda>ev. Inr (Some ev)) evs"
  using assms
proof (induction xs arbitrary: st)
  case Nil
  show ?case by simp
next
  case (Cons x xs)
  have b: "f x st = deliver (dec x) (cur x st)" using Cons.prems(1) by simp
  have d: "if skip x then dec x = Inr None else \<exists>ev. dec x = Inr (Some ev)"
    using Cons.prems(3) by simp
  show ?case
  proof (cases "skip x")
    case True
    then have s: "f x st = (None, cur x st)" using b d by (simp add: deliver_def)
    obtain evs st1 where r: "forEach f xs (cur x st) = (None, st1)"
        "onEventCalls st1 = onEventCalls (cur x st) @ evs"
        "map dec (filter (\<lambda>x. \<not> skip x) xs) = map (\<lambda>ev. Inr (Some ev)) evs"
      using Cons.IH [of "cur x st"] Cons.prems by (metis list.set_intros(2))
    show ?thesis using s r True Cons.prems(2) by simp
  next
    case False
    then obtain ev where ev: "dec x = Inr (Some ev)" using d by auto
    then have s: "f x st = (None, onEvent ev (cur x st))" using b by (simp add: deliver_def)
    obtain evs st1 where r: "forEach f xs (onEvent ev (cur x st)) = (None, st1)"
        "onEventCalls st1 = onEventCalls (onEvent ev (cur x st)) @ evs"
        "map dec (filter (\<lambda>x. \<not> skip x) xs) = map (\<lambda>ev. Inr (Some ev)) evs"
      using Cons.IH [of "onEvent ev (cur x st)"] Cons.prems by (metis list.set_intros(2))
    have "forEach f (x # xs) st = (None, st1)" using s r(1) by simp
    moreover have "onEventCalls st1 = onEventCalls st @ (ev # evs)"
      using r(2) Cons.prems(2) by (simp add: onEvent_def)
    moreover have "map dec (filter (\<lambda>x. \<not> skip x) (x # xs)) = map (\<lambda>ev. Inr (Some ev)) (ev # evs)"
      using False ev r(3) by simp
    ultimately show ?thesis by blast
  qed
qed

lemma emitItem_deliver:
  assumes "\<not> nullish entry"
  shows "emitItem E entry st =
     deliver (parseEventPayload E (itemPayload entry) entry)
       (if truthy (js_or_list [getProp entry ''SeqID'', getProp entry ''seqId'', JNull])
        then st\<lparr>lastSeqId := js_or_list [getProp entry ''SeqID'', getProp entry ''seqId'', JNull]\<rparr>
        else st)"
  using assms by (simp add: emitItem_def Let_def itemPayload_def del: js_or_list.simps)

lemma decoded_or_skipped:
  assumes "decodable E p fb"
  shows "if blank p then parseEventPayload E p fb = Inr None
         else \<exists>ev. parseEventPayload E p fb = Inr (Some ev)"
  using assms parseEventPayload_blank_iff parseEventPayload_decodable by simp

lemma emitItems_decodable:
  assumes "list_all (\<lambda>entry. \<not> nullish entry \<and> decodable E (itemPayload entry) entry) xs"
  shows "\<exists>evs st1. emitItems E xs st = (None, st1)
           \<and> onEventCalls st1 = onEventCalls st @ evs
           \<and> map (\<lambda>entry. parseEventPayload E (itemPayload entry) entry)
                 (filter (\<lambda>entry. \<not> blank (itemPayload entry)) xs)
               = map (\<lambda>ev. Inr (Some ev)) evs"
  unfolding emitItems_def
proof (rule forEach_deliver [where skip = "\<lambda>entry. blank (itemPayload entry)"
      and dec = "\<lambda>entry. parseEventPayload E (itemPayload entry) entry"
      and cur = "\<lambda>entry st. if truthy (js_or_list [getProp entry ''SeqID'', getProp entry ''seqId'', JNull])
        then st\<lparr>lastSeqId := js_or_list [getProp entry ''SeqID'', getProp entry ''seqId'', JNull]\<rparr>
        else st"])
  fix x s assume "x \<in> set xs"
  then have "\<not> nullish x" using assms by (simp add: list_all_iff)
  then show "emitItem E x s =
     deliver (parseEventPayload E (itemPayload x) x)
       (if truthy (js_or_list [getProp x ''SeqID'', getProp x ''seqId'', JNull])
        then s\<lparr>lastSeqId := js_or_list [getProp x ''SeqID'', getProp x ''seqId'', JNull]\<rparr>
        else s)"
    by (rule emitItem_deliver)
next
  fix x :: jsval and s :: subscription
  show "onEventCalls (if truthy (js_or_list [getProp x ''SeqID'', getProp x ''seqId'', JNull])
        then s\<lparr>lastSeqId := js_or_list [getProp x ''SeqID'', getProp x ''seqId'', JNull]\<rparr>
        else s) = onEventCalls s"
    by (simp del: js_or_list.simps)
next
  fix x assume "x \<in> set xs"
  then have "decodable E (itemPayload x) x" using assms by (simp add: list_all_iff)
  then show "if blank (itemPayload x) then parseEventPayload E (itemPayload x) x = Inr None
     else \<exists>ev. parseEventPayload E (itemPayload x) x = Inr (Some ev)"
    by (rule decoded_or_skipped)
qed

lemma emitSseEntry_deliver:
  "emitSseEntry E entry st =
     deliver (parseEventPayload E (entryPayload entry) (entryFallback entry))
       (if truthy (sse_id entry) then st\<lparr>lastSeqId := sse_id entry\<rparr> else st)"
  by (simp add: emitSseEntry_def Let_def entryPayload_def entryFallback_def)

lemma deliver_lastSeqId: "lastSeqId (snd (deliver r st)) = lastSeqId st"
  by (simp add: deliver_def onEvent_def split: sum.splits option.splits)

lemma emitSse_lastSeqId:
  "emitSse E es st = (None, st1) \<Longrightarrow> lastSeqId st1 = lastEntryId es (lastSeqId st)"
proof (induction es arbitrary: st)
  case Nil
  then show ?case by (simp add: emitSse_def)
next
  case (Cons e es)
  obtain r s1 where b: "emitSseEntry E e st = (r, s1)" by (cases "emitSseEntry E e st")
  have l: "lastSeqId s1 = (if truthy (sse_id e) then sse_id e else lastSeqId st)"
    using b deliver_lastSeqId [of "parseEventPayload E (entryPayload e) (entryFallback e)"
        "if truthy (sse_id e) then st\<lparr>lastSeqId := sse_id e\<rparr> else st"]
    by (simp add: emitSseEntry_deliver)
  show ?case
  proof (cases r)
    case None
    then have "emitSse E es s1 = (None, st1)" using Cons.prems b by (simp add: emitSse_def)
    then have "lastSeqId st1 = lastEntryId es (lastSeqId s1)" by (rule Cons.IH)
    then show ?thesis using l by simp
  next
    case (Some a)
    then show ?thesis using Cons.prems b by (simp add: emitSse_def)
  qed
qed

lemma emitSse_decodable:
  assumes "list_all (\<lambda>entry. decodable E (entryPayload entry) (entryFallback entry)) es"
  shows "\<exists>evs st1. emitSse E es st = (None, st1)
           \<and> onEventCalls st1 = onEventCalls st @ evs
           \<and> map (\<lambda>entry. parseEventPayload E (entryPayload entry) (entryFallback entry))
                 (filter (\<lambda>entry. \<not> blank (entryPayload entry)) es)
               = map (\<lambda>ev. Inr (Some ev)) evs
           \<and> lastSeqId st1 = lastEntryId es (lastSeqId st)"
proof -
  have "\<exists>evs st1. forEach (emitSseEntry E) es st = (None, st1)
           \<and> onEventCalls st1 = onEventCalls st @ evs
           \<and> map (\<lambda>entry. parseEventPayload E (entryPayload entry) (entryFallback entry))
                 (filter (\<lambda>entry. \<not> blank (entryPayload entry)) es)
               = map (\<lambda>ev. Inr (Some ev)) evs"
  proof (rule forEach_deliver [where skip = "\<lambda>entry. blank (entryPayload entry)"
      and dec = "\<lambda>entry. parseEventPayload E (entryPayload entry) (entryFallback entry)"
      and cur = "\<lambda>entry st. if truthy (sse_id entry) then st\<lparr>lastSeqId := sse_id entry\<rparr> else st"])
    fix x s
    show "emitSseEntry E x s =
       deliver (parseEventPayload E (entryPayload x) (entryFallback x))
         (if truthy (sse_id x) then s\<lparr>lastSeqId := sse_id x\<rparr> else s)"
      by (rule emitSseEntry_deliver)
  next
    fix x :: sse_entry and s :: subscription
    show "onEventCalls (if truthy (sse_id x) then s\<lparr>lastSeqId := sse_id x\<rparr> else s) = onEventCalls s"
      by simp
  next
    fix x assume "x \<in> set es"
    then have "decodable E (entryPayload x) (entryFallback x)" using assms by (simp add: list_all_iff)
    then show "if blank (entryPayload x)
       then parseEventPayload E (entryPayload x) (entryFallback x) = Inr None
       else \<exists>ev. parseEventPayload E (entryPayload x) (entryFallback x) = Inr (Some ev)"
      by (rule decoded_or_skipped)
  qed
  then obtain evs st1 where r: "emitSse E es st = (None, st1)"
      "onEventCalls st1 = onEventCalls st @ evs"
      "map (\<lambda>entry. parseEventPayload E (entryPayload entry) (entryFallback entry))
                 (filter (\<lambda>entry. \<not> blank (entryPayload entry)) es)
               = map (\<lambda>ev. Inr (Some ev)) evs"
    unfolding emitSse_def by blast
  then show ?thesis using emitSse_lastSeqId [OF r(1)] by blast
qed

lemma emitFromResponse_sseText:
  assumes "sseText s"
  shows "emitFromResponse E (JStr s) st = emitSse E (parseSseText (trim s)) st"
proof -
  have "trim s \<noteq> []" using assms by (auto simp: sseText_def Let_def startsWith_def)
  then show ?thesis using assms by (simp add: emitFromResponse_def sseText_def Let_def)
qed

lemma list_all_filter: "list_all P xs \<Longrightarrow> list_all P (filter Q xs)"
  by (induction xs) simp_all


















lemma dropWhile_all: "dropWhile P s = [] \<longleftrightarrow> list_all P s"
  by (induction s) simp_all

lemma startsWith_append: "startsWith l p \<Longrightarrow> startsWith (l @ r) p"
proof -
  assume a: "startsWith l p"
  then have "length (take (length p) l) = length p" by (simp add: startsWith_def)
  then have "length p \<le> length l" by simp
  then show ?thesis using a by (simp add: startsWith_def)
qed

lemma sseLine_dataLine:
  assumes "fieldValue d"
  shows "sseLine p (dataLine d) = p\<lparr>dataLines := dataLines p @ [d]\<rparr>"
proof (cases "d = []")
  case True
  then show ?thesis by (simp add: dataLine_def sseLine_def startsWith_def trimStart_def)
next
  case False
  then have "plain d" using assms by (simp add: fieldValue_def)
  then show ?thesis using False sseLine_data [of d p] by (simp add: dataLine_def)
qed

lemma sseLine_dataLines:
  "list_all fieldValue ds \<Longrightarrow>
   foldl sseLine p (map dataLine ds) = p\<lparr>dataLines := dataLines p @ ds\<rparr>"
proof (induction ds arbitrary: p)
  case Nil
  show ?case by simp
next
  case (Cons d ds)
  then have d: "fieldValue d" and ds: "list_all fieldValue ds" by simp_all
  have "foldl sseLine p (map dataLine (d # ds))
      = foldl sseLine (sseLine p (dataLine d)) (map dataLine ds)"
    by simp
  also have "\<dots> = foldl sseLine (p\<lparr>dataLines := dataLines p @ [d]\<rparr>) (map dataLine ds)"
    by (simp only: sseLine_dataLine [OF d])
  also have "\<dots> = p\<lparr>dataLines := dataLines p @ d # ds\<rparr>"
    using Cons.IH [OF ds, of "p\<lparr>dataLines := dataLines p @ [d]\<rparr>"] by simp
  finally show ?case .
qed

lemma pushEvent_frameText:
  assumes "clean p" and "framed f"
  shows "pushEvent (foldl sseLine p (frameText f)) = p\<lparr>events := events p @ [frameEntry f]\<rparr>"
proof -
  obtain ev ci dl where p: "p = \<lparr>events = ev, currentId = ci, dataLines = dl\<rparr>"
    by (cases p) auto
  have c: "ci = JUndefined" "dl = []" using assms(1) by (simp_all add: p clean_def)
  have ds: "list_all fieldValue (frame_data f)" using assms(2) by (simp add: framed_def)
  show ?thesis
  proof (cases "frame_id f")
    case None
    then have ne: "frame_data f \<noteq> []" using assms(2) by (simp add: framed_def)
    have "foldl sseLine p (frameText f) = p\<lparr>dataLines := dataLines p @ frame_data f\<rparr>"
      using None sseLine_dataLines [OF ds, of p] by (simp add: frameText_def)
    then have "foldl sseLine p (frameText f)
        = \<lparr>events = ev, currentId = JUndefined, dataLines = frame_data f\<rparr>"
      by (simp add: p c)
    then show ?thesis
      using None ne by (simp add: p c pushEvent_def frameEntry_def)
  next
    case (Some i)
    then have i: "plain i" using assms(2) by (simp add: framed_def)
    have "foldl sseLine p (frameText f)
        = foldl sseLine (sseLine p (''id: '' @ i)) (map dataLine (frame_data f))"
      using Some by (simp add: frameText_def)
    also have "\<dots> = foldl sseLine (p\<lparr>currentId := JStr i\<rparr>) (map dataLine (frame_data f))"
      by (simp only: sseLine_id [OF i])
    also have "\<dots> = (p\<lparr>currentId := JStr i\<rparr>)\<lparr>dataLines := dataLines (p\<lparr>currentId := JStr i\<rparr>) @ frame_data f\<rparr>"
      by (rule sseLine_dataLines [OF ds])
    finally have "foldl sseLine p (frameText f)
        = \<lparr>events = ev, currentId = JStr i, dataLines = frame_data f\<rparr>"
      by (simp add: p c)
    then show ?thesis
      using Some i by (simp add: p c pushEvent_def frameEntry_def plain_nonempty)
  qed
qed

lemma pushEvent_bodyLines:
  "clean p \<Longrightarrow> list_all framed fs \<Longrightarrow>
   pushEvent (foldl sseLine p (bodyLines fs)) = p\<lparr>events := events p @ map frameEntry fs\<rparr>"
proof (induction fs arbitrary: p rule: bodyLines.induct)
  case 1
  then show ?case by (simp add: pushEvent_clean)
next
  case (2 f)
  then show ?case by (simp add: pushEvent_frameText)
next
  case (3 f g fs)
  let ?p1 = "p\<lparr>events := events p @ [frameEntry f]\<rparr>"
  have c: "clean ?p1" using 3(2) by (rule clean_events)
  have "pushEvent (foldl sseLine p (bodyLines (f # g # fs)))
      = pushEvent (foldl sseLine (pushEvent (foldl sseLine p (frameText f))) (bodyLines (g # fs)))"
    by (simp add: sseLine_blank)
  also have "\<dots> = pushEvent (foldl sseLine ?p1 (bodyLines (g # fs)))"
    using 3(2,3) by (simp add: pushEvent_frameText)
  also have "\<dots> = ?p1\<lparr>events := events ?p1 @ map frameEntry (g # fs)\<rparr>"
    using 3(3) by (intro "3.IH" [OF c]) simp
  finally show ?case by simp
qed

lemma edgeLine_id: "plain i \<Longrightarrow> edgeLine (''id: '' @ i)"
  by (simp add: edgeLine_def plain_def isWhiteSpace_def startsWith_def)

lemma edgeLine_dataLine: "fieldValue d \<Longrightarrow> edgeLine (dataLine d)"
  by (auto simp: edgeLine_def fieldValue_def dataLine_def plain_def isWhiteSpace_def startsWith_def)

lemma lineOk_id: "plain i \<Longrightarrow> lineOk (''id: '' @ i)"
  using lineOk_field [where pre = "''id: ''" and v = i] by (simp add: LF_def)

lemma lineOk_dataLine: "fieldValue d \<Longrightarrow> lineOk (dataLine d)"
  using lineOk_field [where pre = "''data: ''" and v = d]
  by (auto simp: fieldValue_def dataLine_def LF_def lineOk_def CR_def)

lemma frameText_lines:
  assumes "framed f"
  shows "list_all lineOk (frameText f)" and "list_all edgeLine (frameText f)"
    and "frameText f \<noteq> []"
proof -
  have ds: "list_all fieldValue (frame_data f)" using assms by (simp add: framed_def)
  have a: "list_all lineOk (map dataLine (frame_data f))"
    using ds by (induction "frame_data f") (auto simp: list_all_iff lineOk_dataLine)
  have b: "list_all edgeLine (map dataLine (frame_data f))"
    using ds by (auto simp: list_all_iff edgeLine_dataLine)
  show "list_all lineOk (frameText f)"
    using assms a unfolding framed_def frameText_def
    by (cases "frame_id f") (simp_all add: lineOk_id [simplified])
  show "list_all edgeLine (frameText f)"
    using assms b unfolding framed_def frameText_def
    by (cases "frame_id f") (simp_all add: edgeLine_id [simplified])
  show "frameText f \<noteq> []"
    using assms unfolding framed_def frameText_def by (cases "frame_id f") simp_all
qed

lemma bodyLines_nonempty: "fs \<noteq> [] \<Longrightarrow> list_all framed fs \<Longrightarrow> bodyLines fs \<noteq> []"
  by (induction fs rule: bodyLines.induct) (simp_all add: frameText_lines)

lemma lineOk_bodyLines: "list_all framed fs \<Longrightarrow> list_all lineOk (bodyLines fs)"
  by (induction fs rule: bodyLines.induct) (simp_all add: frameText_lines, simp add: lineOk_def)

lemma parseSseText_bodyText:
  assumes "fs \<noteq> []" and "list_all framed fs"
  shows "parseSseText (bodyText fs) = map frameEntry fs"
proof -
  have "splitLines (bodyText fs) = bodyLines fs"
    unfolding bodyText_def
    using bodyLines_nonempty [OF assms] lineOk_bodyLines [OF assms(2)]
    by (rule splitLines_joinLines)
  then show ?thesis
    using pushEvent_bodyLines [of "\<lparr>events = [], currentId = JUndefined, dataLines = []\<rparr>" fs] assms(2)
    by (simp add: parseSseText_def clean_def)
qed

lemma hd_bodyLines:
  "fs \<noteq> [] \<Longrightarrow> list_all framed fs \<Longrightarrow> edgeLine (hd (bodyLines fs))"
proof (induction fs rule: bodyLines.induct)
  case (2 f)
  then show ?case
    using frameText_lines(2,3) [of f] by (cases "frameText f") simp_all
next
  case (3 f g fs)
  then show ?case
    using frameText_lines(2,3) [of f] by (cases "frameText f") simp_all
qed simp

lemma last_bodyLines:
  "fs \<noteq> [] \<Longrightarrow> list_all framed fs \<Longrightarrow> edgeLine (last (bodyLines fs))"
proof (induction fs rule: bodyLines.induct)
  case (2 f)
  then show ?case
    using frameText_lines(2,3) [of f] by (simp add: list_all_iff)
next
  case (3 f g fs)
  then show ?case
    using bodyLines_nonempty [of "g # fs"] by simp
qed simp

lemma bodyText_shape:
  assumes "fs \<noteq> []" and "list_all framed fs"
  shows "trim (bodyText fs) = bodyText fs" and "sseText (bodyText fs)"
proof -
  have ne: "bodyLines fs \<noteq> []" using assms by (rule bodyLines_nonempty)
  obtain r1 where r1: "bodyText fs = hd (bodyLines fs) @ r1"
    using joinLines_hd [OF ne] unfolding bodyText_def by blast
  obtain r2 where r2: "bodyText fs = r2 @ last (bodyLines fs)"
    using joinLines_last [OF ne] unfolding bodyText_def by blast
  have h: "edgeLine (hd (bodyLines fs))" using assms by (rule hd_bodyLines)
  have l: "edgeLine (last (bodyLines fs))" using assms by (rule last_bodyLines)
  have a: "bodyText fs \<noteq> []" using h r1 by (simp add: edgeLine_def)
  have b: "\<not> isWhiteSpace (hd (bodyText fs))" using h r1 by (simp add: edgeLine_def)
  have c: "\<not> isWhiteSpace (last (bodyText fs))" using l r2 by (simp add: edgeLine_def)
  show t: "trim (bodyText fs) = bodyText fs" using a b c by (rule trim_id)
  have "startsWith (bodyText fs) ''id:'' \<or> startsWith (bodyText fs) ''data:''"
    using h r1 startsWith_append [of "hd (bodyLines fs)" _ r1] by (auto simp: edgeLine_def)
  then show "sseText (bodyText fs)" by (auto simp: sseText_def t)
qed

lemma trim_Nil_iff: "trim s = [] \<longleftrightarrow> list_all isWhiteSpace s"
proof
  assume a: "trim s = []"
  show "list_all isWhiteSpace s"
  proof (rule ccontr)
    assume "\<not> list_all isWhiteSpace s"
    then have n: "dropWhile isWhiteSpace s \<noteq> []" using dropWhile_all [of isWhiteSpace s] by simp
    then have "\<not> isWhiteSpace (hd (dropWhile isWhiteSpace s))" by (rule hd_dropWhile)
    moreover have "hd (dropWhile isWhiteSpace s) \<in> set (rev (dropWhile isWhiteSpace s))"
      using n by simp
    ultimately have "dropWhile isWhiteSpace (rev (dropWhile isWhiteSpace s)) \<noteq> []"
      by (auto simp: dropWhile_all list_all_iff)
    then show False using a by (simp add: trim_def trimStart_def trimEnd_def)
  qed
next
  assume "list_all isWhiteSpace s"
  then have d: "dropWhile isWhiteSpace s = []" by (simp add: list_all_iff)
  show "trim s = []" unfolding trim_def trimStart_def trimEnd_def d by simp
qed

lemma isWhiteSpace_LF: "isWhiteSpace LF"
  by (simp add: isWhiteSpace_def LF_def)

lemma joinLines_white:
  "list_all isWhiteSpace (joinLines ds) \<longleftrightarrow> list_all (list_all isWhiteSpace) ds"
  by (induction ds rule: joinLines.induct) (auto simp: isWhiteSpace_LF)

lemma fieldValue_white: "fieldValue d \<Longrightarrow> list_all isWhiteSpace d \<longleftrightarrow> d = []"
  by (cases d) (auto simp: fieldValue_def plain_def)

lemma framed_entry:
  assumes "framed f"
  shows "entryPayload (frameEntry f) = JStr (joinLines (frame_data f))"
    and "entryFallback (frameEntry f) = frameFallback f"
    and "blank (entryPayload (frameEntry f)) \<longleftrightarrow> noData f"
    and "(if truthy (sse_id (frameEntry f)) then sse_id (frameEntry f) else l)
         = (case frame_id f of Some i \<Rightarrow> JStr i | None \<Rightarrow> l)"
proof -
  show a: "entryPayload (frameEntry f) = JStr (joinLines (frame_data f))"
    by (simp add: entryPayload_def frameEntry_def js_coalesce_def)
  show "entryFallback (frameEntry f) = frameFallback f"
    using assms unfolding framed_def entryFallback_def frameEntry_def frameFallback_def
    by (cases "frame_id f") (simp_all add: plain_nonempty)
  show "(if truthy (sse_id (frameEntry f)) then sse_id (frameEntry f) else l)
         = (case frame_id f of Some i \<Rightarrow> JStr i | None \<Rightarrow> l)"
    using assms unfolding framed_def frameEntry_def
    by (cases "frame_id f") (simp_all add: plain_nonempty)
  have ds: "list_all fieldValue (frame_data f)" using assms by (simp add: framed_def)
  have "list_all (list_all isWhiteSpace) (frame_data f) \<longleftrightarrow> list_all (\<lambda>d. d = []) (frame_data f)"
    using ds fieldValue_white by (auto simp: list_all_iff)
  then show "blank (entryPayload (frameEntry f)) \<longleftrightarrow> noData f"
    by (simp add: a blank_def trim_Nil_iff joinLines_white noData_def)
qed

lemma lastEntryId_framed:
  "list_all framed fs \<Longrightarrow> lastEntryId (map frameEntry fs) l = lastId fs l"
proof (induction fs arbitrary: l)
  case Nil
  show ?case by simp
next
  case (Cons f fs)
  then have f: "framed f" and fs: "list_all framed fs" by simp_all
  show ?case using Cons.IH [OF fs] framed_entry(4) [OF f] by simp
qed

lemma filter_framed:
  "list_all framed fs \<Longrightarrow>
   filter (\<lambda>entry. \<not> blank (entryPayload entry)) (map frameEntry fs)
     = map frameEntry (filter (\<lambda>f. \<not> noData f) fs)"
  by (induction fs) (simp_all add: framed_entry(3))

lemma map_frameEvent_framed:
  "list_all framed fs \<Longrightarrow>
   map (\<lambda>entry. parseEventPayload E (entryPayload entry) (entryFallback entry)) (map frameEntry fs)
     = map (frameEvent E) fs"
  by (induction fs) (simp_all add: framed_entry frameEvent_def)

lemma emitSse_framed:
  assumes "list_all framed fs"
    and "list_all (\<lambda>f. decodable E (JStr (joinLines (frame_data f))) (frameFallback f)) fs"
  shows "\<exists>evs st1. emitSse E (map frameEntry fs) st = (None, st1)
       \<and> onEventCalls st1 = onEventCalls st @ evs
       \<and> map (frameEvent E) (filter (\<lambda>f. \<not> noData f) fs) = map (\<lambda>ev. Inr (Some ev)) evs
       \<and> lastSeqId st1 = lastId fs (lastSeqId st)"
proof -
  have "list_all (\<lambda>entry. decodable E (entryPayload entry) (entryFallback entry)) (map frameEntry fs)"
    using assms by (induction fs) (simp_all add: framed_entry)
  then obtain evs st1 where r: "emitSse E (map frameEntry fs) st = (None, st1)"
      "onEventCalls st1 = onEventCalls st @ evs"
      "map (\<lambda>entry. parseEventPayload E (entryPayload entry) (entryFallback entry))
                 (filter (\<lambda>entry. \<not> blank (entryPayload entry)) (map frameEntry fs))
               = map (\<lambda>ev. Inr (Some ev)) evs"
      "lastSeqId st1 = lastEntryId (map frameEntry fs) (lastSeqId st)"
    using emitSse_decodable by blast
  have wf: "list_all framed (filter (\<lambda>f. \<not> noData f) fs)"
    using assms(1) by (rule list_all_filter)
  have "map (frameEvent E) (filter (\<lambda>f. \<not> noData f) fs)
      = map (\<lambda>entry. parseEventPayload E (entryPayload entry) (entryFallback entry))
          (map frameEntry (filter (\<lambda>f. \<not> noData f) fs))"
    by (rule map_frameEvent_framed [OF wf, symmetric])
  also have "\<dots> = map (\<lambda>entry. parseEventPayload E (entryPayload entry) (entryFallback entry))
          (filter (\<lambda>entry. \<not> blank (entryPayload entry)) (map frameEntry fs))"
    by (simp only: filter_framed [OF assms(1)])
  also have "\<dots> = map (\<lambda>ev. Inr (Some ev)) evs" by (rule r(3))
  finally have "map (frameEvent E) (filter (\<lambda>f. \<not> noData f) fs) = map (\<lambda>ev. Inr (Some ev)) evs" .
  then show ?thesis using r(1,2,4) lastEntryId_framed [OF assms(1)] by auto
qed

lemma emitFromResponse_bodyText:
  assumes "fs \<noteq> []" and "list_all framed fs"
  shows "emitFromResponse E (JStr (bodyText fs)) st = emitSse E (map frameEntry fs) st"
  using emitFromResponse_sseText [OF bodyText_shape(2) [OF assms]]
    bodyText_shape(1) [OF assms] parseSseText_bodyText [OF assms]
  by simp

lemma wellFramed_framed: "wellFramed f \<Longrightarrow> framed f"
  by (simp add: wellFramed_def framed_def fieldValue_def list_all_iff)

lemma frameText_frameLines: "wellFramed f \<Longrightarrow> frameText f = frameLines f"
  by (simp add: wellFramed_def frameText_def frameLines_def dataLine_def list_all_iff plain_nonempty)

lemma bodyLines_sseBodyLines: "list_all wellFramed fs \<Longrightarrow> bodyLines fs = sseBodyLines fs"
  by (induction fs rule: sseBodyLines.induct) (simp_all add: frameText_frameLines)

lemma bodyText_sseBody: "list_all wellFramed fs \<Longrightarrow> bodyText fs = sseBody fs"
  by (simp add: bodyText_def sseBody_def bodyLines_sseBodyLines)

lemma kindAt_sampleEnv: "kindAt sampleEnv v"
  by (simp add: kindAt_def sampleEnv_def)

lemma trim_tokenText: "trim tokenText = tokenText" "tokenText \<noteq> []"
  using trim_plain [OF plain_samples(5)] plain_nonempty [OF plain_samples(5)] by simp_all

lemma trim_empty: "trim [] = []"
  by (simp add: trim_def trimStart_def trimEnd_def)

lemma sampleItems_hyp:
  "list_all (\<lambda>entry. \<not> nullish entry \<and> decodable sampleEnv (itemPayload entry) entry) sampleItems"
proof -
  have "list_all (\<lambda>entry. \<not> nullish entry) sampleItems" by (simp add: sampleItems_def)
  moreover have "decodable sampleEnv (JObj kvs) fb" for kvs fb
    by (simp add: decodable_def kindAt_sampleEnv)
  moreover have "decodable sampleEnv (JStr tokenText) fb" for fb
    by (simp add: decodable_def trim_tokenText sampleEnv_parse kindAt_sampleEnv tokenRecord_def)
  moreover have "decodable sampleEnv (JStr []) fb" for fb
    by (simp add: decodable_def trim_empty)
  ultimately show ?thesis
    by (simp add: sampleItems_def itemPayload_def js_coalesce_def)
qed

lemma sampleItems_events:
  "map (\<lambda>entry. parseEventPayload sampleEnv (itemPayload entry) entry)
       (filter (\<lambda>entry. \<not> blank (itemPayload entry)) sampleItems) =
     map (\<lambda>ev. Inr (Some ev))
     [\<lparr>step_id = JStr ''phase:plan'', message = JStr ''started'', finished = JBool False,
        timestamp = JNum 1000, type = Phase\<rparr>,
      \<lparr>step_id = JStr ''chat:token:1'', message = JStr ''Hi'', finished = JBool False,
        timestamp = JNum 1000, type = ChatToken\<rparr>]"
proof -
  have b: "\<not> blank (JObj kvs)" "\<not> blank (JStr tokenText)" "blank (JStr [])" for kvs
    by (simp_all add: blank_def trim_tokenText trim_empty)
  have f: "filter (\<lambda>entry. \<not> blank (itemPayload entry)) sampleItems =
     [JObj [(''step_id'', JStr ''phase:plan''), (''message'', JStr ''started'')],
      JObj [(''SeqID'', JStr ''k2''), (''data'', JStr tokenText)]]"
    by (simp add: sampleItems_def itemPayload_def js_coalesce_def b)
  show ?thesis
    unfolding f
    by (simp add: itemPayload_def js_coalesce_def parseEventPayload_def trim_tokenText
        sampleEnv_parse sampleEnv_fields eventOfRecord_def tokenRecord_def stepIdOf_def
        optProp_def getEventType_def startsWith_def)
qed

lemma framed_threeFrames: "list_all framed threeFrames"
  by (simp add: threeFrames_def framed_def fieldValue_def plain_samples)

lemma decodable_threeFrames:
  "list_all (\<lambda>f. decodable sampleEnv (JStr (joinLines (frame_data f))) (frameFallback f)) threeFrames"
proof -
  have "decodable sampleEnv (JStr tokenText) fb" for fb
    by (simp add: decodable_def trim_tokenText sampleEnv_parse kindAt_sampleEnv tokenRecord_def)
  moreover have "decodable sampleEnv (JStr []) fb" for fb
    by (simp add: decodable_def trim_empty)
  moreover have "decodable sampleEnv (JStr ''hello\<newline>world'') fb" for fb
    by (simp add: decodable_def trim_sample sampleEnv_parse kindAt_sampleEnv)
  ultimately show ?thesis by (simp add: threeFrames_def LF_def)
qed

lemma noData_threeFrames:
  "filter (\<lambda>f. \<not> noData f) threeFrames =
     [\<lparr>frame_id = Some ''7'', frame_data = [tokenText]\<rparr>,
      \<lparr>frame_id = Some ''9'', frame_data = [''hello'', ''world'']\<rparr>]"
  by (simp add: threeFrames_def noData_def trim_tokenText)

lemma frameEvent_threeFrames:
  "map (frameEvent sampleEnv) (filter (\<lambda>f. \<not> noData f) threeFrames) =
     map (\<lambda>ev. Inr (Some ev))
     [\<lparr>step_id = JStr ''chat:token:1'', message = JStr ''Hi'', finished = JBool False,
                  timestamp = JNum 1000, type = ChatToken\<rparr>,
      \<lparr>step_id = JStr ''unknown'', message = JStr ''hello\<newline>world'', finished = JBool False,
                  timestamp = JNum 1000, type = Unknown\<rparr>]"
  unfolding noData_threeFrames
  by (simp add: frameEvent_def frameFallback_def parseEventPayload_def
      LF_def trim_sample trim_tokenText sampleEnv_parse sampleEnv_fields eventOfRecord_def
      tokenRecord_def stepIdOf_def optProp_def getEventType_def startsWith_def)



lemma lower_running: "toLowerCase ''Running'' = ''running''" "toLowerCase ''failed'' = ''failed''"
  by code_simp+

lemma reset_fields:
  "\<not> connectedRef (reset c)" "abortRef (reset c) = None" "pollRef (reset c) = None"
  "status (reset c) = Idle" "error (reset c) = None"
  by (simp_all add: reset_def cleanup_refs)

lemma bodyText_threeFrames:
  \<open>bodyText threeFrames =
     ''id: 7\<newline>data: {"step_id":"chat:token:1","message":"Hi"}\<newline>\<newline>id: 8\<newline>data:\<newline>\<newline>id: 9\<newline>data: hello\<newline>data: world''\<close>
  by (simp add: bodyText_def threeFrames_def frameText_def dataLine_def LF_def tokenText_def)

section \<open>Properties\<close>

text \<open>
  C1. A parsed body that is an array gives one event for each element whose payload is
  not blank, delivered through \<^verbatim>\<open>onEvent\<close> in the order of the array. The payload of
  an element is its \<^verbatim>\<open>data\<close> member, or the element itself when it has none
  (line 256): a record may be the event, or an envelope that carries the event as a
  string still to be parsed. An element whose payload is a string that is blank once
  trimmed gives no event (line 145), so that the events are not one for each element:
  the array of the one record with \<^verbatim>\<open>data\<close> the empty string gives none.

  For every array of elements other than \<^verbatim>\<open>null\<close>, none of them with a payload
  that is a JSON text for \<^verbatim>\<open>null\<close>, and with \<^verbatim>\<open>getEventType\<close>, which is not
  among the sources, returning a kind where it is called (\<open>decodable\<close>): nothing is
  thrown, and the events appended to the calls of \<^verbatim>\<open>onEvent\<close> are, position by
  position, what \<^verbatim>\<open>parseEventPayload\<close> makes of the elements whose payload is not
  blank; there are as many of them as such elements, one for each element of the array
  when no payload is blank.
\<close>

theorem array_one_event_per_payload:
  assumes "list_all (\<lambda>entry. \<not> nullish entry \<and> decodable E (itemPayload entry) entry) xs"
  shows "\<exists>evs st1. emitFromResponse E (JArr xs) st = (None, st1)
           \<and> onEventCalls st1 = onEventCalls st @ evs
           \<and> map (\<lambda>entry. parseEventPayload E (itemPayload entry) entry)
                 (filter (\<lambda>entry. \<not> blank (itemPayload entry)) xs)
               = map (\<lambda>ev. Inr (Some ev)) evs
           \<and> length evs = length (filter (\<lambda>entry. \<not> blank (itemPayload entry)) xs)
           \<and> (list_all (\<lambda>entry. \<not> blank (itemPayload entry)) xs \<longrightarrow> length evs = length xs)"
proof -
  obtain evs st1 where r: "emitItems E xs st = (None, st1)"
      "onEventCalls st1 = onEventCalls st @ evs"
      "map (\<lambda>entry. parseEventPayload E (itemPayload entry) entry)
                 (filter (\<lambda>entry. \<not> blank (itemPayload entry)) xs)
               = map (\<lambda>ev. Inr (Some ev)) evs"
    using emitItems_decodable [OF assms] by blast
  have "length (map (\<lambda>entry. parseEventPayload E (itemPayload entry) entry)
                 (filter (\<lambda>entry. \<not> blank (itemPayload entry)) xs))
      = length (map (\<lambda>ev. Inr (Some ev) :: error + job_event option) evs)"
    by (simp only: r(3))
  then have l: "length evs = length (filter (\<lambda>entry. \<not> blank (itemPayload entry)) xs)"
    by simp
  have "list_all (\<lambda>entry. \<not> blank (itemPayload entry)) xs \<longrightarrow> length evs = length xs"
    using l by (simp add: list_all_iff)
  moreover have "emitFromResponse E (JArr xs) st = (None, st1)"
    using r(1) by (simp add: emitFromResponse_def)
  ultimately show ?thesis using r(2,3) l by blast
qed

theorem array_one_event_per_payload_witness:
  "list_all (\<lambda>entry. \<not> nullish entry \<and> decodable sampleEnv (itemPayload entry) entry) sampleItems
   \<and> length sampleItems = 3
   \<and> fst (emitFromResponse sampleEnv (JArr sampleItems) newSubscription) = None
   \<and> onEventCalls (snd (emitFromResponse sampleEnv (JArr sampleItems) newSubscription)) =
       [\<lparr>step_id = JStr ''phase:plan'', message = JStr ''started'', finished = JBool False,
          timestamp = JNum 1000, type = Phase\<rparr>,
        \<lparr>step_id = JStr ''chat:token:1'', message = JStr ''Hi'', finished = JBool False,
          timestamp = JNum 1000, type = ChatToken\<rparr>]"
proof -
  obtain evs st1 where r:
      "emitFromResponse sampleEnv (JArr sampleItems) newSubscription = (None, st1)"
      "onEventCalls st1 = onEventCalls newSubscription @ evs"
      "map (\<lambda>entry. parseEventPayload sampleEnv (itemPayload entry) entry)
           (filter (\<lambda>entry. \<not> blank (itemPayload entry)) sampleItems)
         = map (\<lambda>ev. Inr (Some ev)) evs"
    using array_one_event_per_payload [OF sampleItems_hyp, of newSubscription]
    by blast
  from r(3) have "evs = [\<lparr>step_id = JStr ''phase:plan'', message = JStr ''started'', finished = JBool False,
          timestamp = JNum 1000, type = Phase\<rparr>,
        \<lparr>step_id = JStr ''chat:token:1'', message = JStr ''Hi'', finished = JBool False,
          timestamp = JNum 1000, type = ChatToken\<rparr>]"
    unfolding sampleItems_events by (rule delivered_inj [symmetric])
  moreover have "length sampleItems = 3" by (simp add: sampleItems_def)
  ultimately show ?thesis using r(1,2) sampleItems_hyp by (simp add: newSubscription_def)
qed

theorem blank_data_element_gives_no_event:
  "emitFromResponse sampleEnv
     (JArr [JObj [(''SeqID'', JStr ''k1''), (''step_id'', JStr ''phase:a''),
                  (''message'', JStr ''m''), (''data'', JStr [])]]) newSubscription
     = (None, newSubscription\<lparr>lastSeqId := JStr ''k1''\<rparr>)
   \<and> onEventCalls (newSubscription\<lparr>lastSeqId := JStr ''k1''\<rparr>) = []"
  by (simp add: emitFromResponse_def emitItems_def emitItem_def js_coalesce_def
      parseEventPayload_def trim_empty deliver_def newSubscription_def)

text \<open>
  C2. An event stream text gives one event for each frame whose data is not blank, in
  the order of the frames, and leaves the cursor \<^verbatim>\<open>lastSeqId\<close> at the last
  \<^verbatim>\<open>id:\<close> value among its frames. A frame whose \<^verbatim>\<open>data:\<close> lines all have an empty
  value is flushed by \<^verbatim>\<open>parseSseText\<close> like any other, but its data is the empty
  string, which \<^verbatim>\<open>parseEventPayload\<close> turns down (line 145): the body of the two
  lines \<^verbatim>\<open>id: 7\<close> and \<^verbatim>\<open>data:\<close> is one frame that ends in a data line and gives no
  event, so that N such frames need not give N events.

  First, for every text that \<^verbatim>\<open>emitFromResponse\<close> takes for an event stream
  (\<open>sseText\<close>), with the entries \<^verbatim>\<open>parseSseText\<close> makes of the trimmed text: nothing
  is thrown, the events appended to the calls of \<^verbatim>\<open>onEvent\<close> are, position by
  position, the decodings of the entries whose data is not blank, and the cursor is the
  last id among the entries, or what it was when there is none.

  Second, for the text of frames separated by one blank line (\<open>bodyText\<close>), each an
  \<^verbatim>\<open>id:\<close> line, or \<^verbatim>\<open>data:\<close> lines whose values may be empty, or the one followed
  by the others: \<^verbatim>\<open>parseSseText\<close> makes one entry of each frame; the events are the
  decodings of the frames that have a data line with a value, as many as there are such
  frames, N for N frames when all are such; and the cursor is the id of the last frame
  when it has one.

  In both parts the data of no frame is a JSON text for \<^verbatim>\<open>null\<close>, and
  \<^verbatim>\<open>getEventType\<close> returns a kind where it is called (\<open>decodable\<close>).
\<close>

theorem sse_one_event_per_data_frame:
  "(sseText s
    \<and> list_all (\<lambda>entry. decodable E (entryPayload entry) (entryFallback entry))
         (parseSseText (trim s))
    \<longrightarrow> (\<exists>evs st1. emitFromResponse E (JStr s) st = (None, st1)
           \<and> onEventCalls st1 = onEventCalls st @ evs
           \<and> map (\<lambda>entry. parseEventPayload E (entryPayload entry) (entryFallback entry))
                 (filter (\<lambda>entry. \<not> blank (entryPayload entry)) (parseSseText (trim s)))
               = map (\<lambda>ev. Inr (Some ev)) evs
           \<and> lastSeqId st1 = lastEntryId (parseSseText (trim s)) (lastSeqId st)))
   \<and> (fs \<noteq> [] \<and> list_all framed fs
      \<and> list_all (\<lambda>f. decodable E (JStr (joinLines (frame_data f))) (frameFallback f)) fs
    \<longrightarrow> parseSseText (trim (bodyText fs)) = map frameEntry fs
       \<and> (\<exists>evs st1. emitFromResponse E (JStr (bodyText fs)) st = (None, st1)
           \<and> onEventCalls st1 = onEventCalls st @ evs
           \<and> map (frameEvent E) (filter (\<lambda>f. \<not> noData f) fs) = map (\<lambda>ev. Inr (Some ev)) evs
           \<and> length evs = length (filter (\<lambda>f. \<not> noData f) fs)
           \<and> (list_all (\<lambda>f. \<not> noData f) fs \<longrightarrow> length evs = length fs)
           \<and> lastSeqId st1 = lastId fs (lastSeqId st)
           \<and> (\<forall>i. frame_id (last fs) = Some i \<longrightarrow> lastSeqId st1 = JStr i)))"
proof (intro conjI impI)
  assume a: "sseText s
    \<and> list_all (\<lambda>entry. decodable E (entryPayload entry) (entryFallback entry))
         (parseSseText (trim s))"
  show "\<exists>evs st1. emitFromResponse E (JStr s) st = (None, st1)
           \<and> onEventCalls st1 = onEventCalls st @ evs
           \<and> map (\<lambda>entry. parseEventPayload E (entryPayload entry) (entryFallback entry))
                 (filter (\<lambda>entry. \<not> blank (entryPayload entry)) (parseSseText (trim s)))
               = map (\<lambda>ev. Inr (Some ev)) evs
           \<and> lastSeqId st1 = lastEntryId (parseSseText (trim s)) (lastSeqId st)"
    using emitSse_decodable [of E "parseSseText (trim s)" st] a
    by (simp add: emitFromResponse_sseText)
next
  assume a: "fs \<noteq> [] \<and> list_all framed fs
      \<and> list_all (\<lambda>f. decodable E (JStr (joinLines (frame_data f))) (frameFallback f)) fs"
  then have ne: "fs \<noteq> []" and fr: "list_all framed fs"
    and de: "list_all (\<lambda>f. decodable E (JStr (joinLines (frame_data f))) (frameFallback f)) fs"
    by simp_all
  show "parseSseText (trim (bodyText fs)) = map frameEntry fs"
    using bodyText_shape(1) [OF ne fr] parseSseText_bodyText [OF ne fr] by simp
  obtain evs st1 where r: "emitSse E (map frameEntry fs) st = (None, st1)"
      "onEventCalls st1 = onEventCalls st @ evs"
      "map (frameEvent E) (filter (\<lambda>f. \<not> noData f) fs) = map (\<lambda>ev. Inr (Some ev)) evs"
      "lastSeqId st1 = lastId fs (lastSeqId st)"
    using emitSse_framed [OF fr de] by blast
  have "length (map (frameEvent E) (filter (\<lambda>f. \<not> noData f) fs))
      = length (map (\<lambda>ev. Inr (Some ev) :: error + job_event option) evs)"
    by (simp only: r(3))
  then have l: "length evs = length (filter (\<lambda>f. \<not> noData f) fs)" by simp
  have l2: "list_all (\<lambda>f. \<not> noData f) fs \<longrightarrow> length evs = length fs"
    using l by (simp add: list_all_iff)
  have c: "\<forall>i. frame_id (last fs) = Some i \<longrightarrow> lastSeqId st1 = JStr i"
    using r(4) lastId_last [OF ne] by simp
  have "emitFromResponse E (JStr (bodyText fs)) st = (None, st1)"
    using emitFromResponse_bodyText [OF ne fr] r(1) by simp
  then show "\<exists>evs st1. emitFromResponse E (JStr (bodyText fs)) st = (None, st1)
           \<and> onEventCalls st1 = onEventCalls st @ evs
           \<and> map (frameEvent E) (filter (\<lambda>f. \<not> noData f) fs) = map (\<lambda>ev. Inr (Some ev)) evs
           \<and> length evs = length (filter (\<lambda>f. \<not> noData f) fs)
           \<and> (list_all (\<lambda>f. \<not> noData f) fs \<longrightarrow> length evs = length fs)
           \<and> lastSeqId st1 = lastId fs (lastSeqId st)
           \<and> (\<forall>i. frame_id (last fs) = Some i \<longrightarrow> lastSeqId st1 = JStr i)"
    using r(2,3,4) l l2 c by blast
qed

theorem sse_one_event_per_data_frame_witness:
  \<open>threeFrames \<noteq> [] \<and> list_all framed threeFrames
   \<and> list_all (\<lambda>f. decodable sampleEnv (JStr (joinLines (frame_data f))) (frameFallback f)) threeFrames
   \<and> sseText (bodyText threeFrames)
   \<and> list_all (\<lambda>entry. decodable sampleEnv (entryPayload entry) (entryFallback entry))
        (parseSseText (trim (bodyText threeFrames)))
   \<and> bodyText threeFrames =
       ''id: 7\<newline>data: {"step_id":"chat:token:1","message":"Hi"}\<newline>\<newline>id: 8\<newline>data:\<newline>\<newline>id: 9\<newline>data: hello\<newline>data: world''
   \<and> length (parseSseText (trim (bodyText threeFrames))) = 3
   \<and> fst (emitFromResponse sampleEnv (JStr (bodyText threeFrames)) newSubscription) = None
   \<and> onEventCalls (snd (emitFromResponse sampleEnv (JStr (bodyText threeFrames)) newSubscription)) =
       [\<lparr>step_id = JStr ''chat:token:1'', message = JStr ''Hi'', finished = JBool False,
          timestamp = JNum 1000, type = ChatToken\<rparr>,
        \<lparr>step_id = JStr ''unknown'', message = JStr ''hello\<newline>world'', finished = JBool False,
          timestamp = JNum 1000, type = Unknown\<rparr>]
   \<and> lastSeqId (snd (emitFromResponse sampleEnv (JStr (bodyText threeFrames)) newSubscription))
       = JStr ''9''\<close>
proof -
  have n: "threeFrames \<noteq> []" and l: "frame_id (last threeFrames) = Some ''9''"
    by (simp_all add: threeFrames_def)
  have p: "parseSseText (trim (bodyText threeFrames)) = map frameEntry threeFrames"
    using sse_one_event_per_data_frame [where fs = threeFrames and E = sampleEnv and st = newSubscription and s = "bodyText threeFrames"]
      n framed_threeFrames decodable_threeFrames by blast
  have e: "list_all (\<lambda>entry. decodable sampleEnv (entryPayload entry) (entryFallback entry))
        (parseSseText (trim (bodyText threeFrames)))"
    unfolding p using decodable_threeFrames framed_threeFrames
    by (simp add: threeFrames_def framed_entry)
  obtain evs st1 where r:
      "emitFromResponse sampleEnv (JStr (bodyText threeFrames)) newSubscription = (None, st1)"
      "onEventCalls st1 = onEventCalls newSubscription @ evs"
      "map (frameEvent sampleEnv) (filter (\<lambda>f. \<not> noData f) threeFrames) = map (\<lambda>ev. Inr (Some ev)) evs"
      "\<forall>i. frame_id (last threeFrames) = Some i \<longrightarrow> lastSeqId st1 = JStr i"
    using sse_one_event_per_data_frame [where fs = threeFrames and E = sampleEnv and st = newSubscription and s = "bodyText threeFrames"]
      n framed_threeFrames decodable_threeFrames
    by blast
  from r(3) have "evs = [\<lparr>step_id = JStr ''chat:token:1'', message = JStr ''Hi'', finished = JBool False,
          timestamp = JNum 1000, type = ChatToken\<rparr>,
        \<lparr>step_id = JStr ''unknown'', message = JStr ''hello\<newline>world'', finished = JBool False,
          timestamp = JNum 1000, type = Unknown\<rparr>]"
    unfolding frameEvent_threeFrames by (rule delivered_inj [symmetric])
  moreover have "lastSeqId st1 = JStr ''9''" using r(4) l by simp
  moreover have "length (parseSseText (trim (bodyText threeFrames))) = 3"
    unfolding p by (simp add: threeFrames_def)
  ultimately show ?thesis
    using r(1,2) n framed_threeFrames decodable_threeFrames e
      bodyText_shape(2) [OF n framed_threeFrames]
      bodyText_threeFrames
    by (simp add: newSubscription_def)
qed

theorem empty_data_frame_gives_no_event:
  "parseSseText ''id: 7\<newline>data:'' = [\<lparr>sse_id = JStr ''7'', sse_data = JStr []\<rparr>]
   \<and> emitFromResponse sampleEnv (JStr ''id: 7\<newline>data:'') newSubscription
       = (None, newSubscription\<lparr>lastSeqId := JStr ''7''\<rparr>)
   \<and> onEventCalls (newSubscription\<lparr>lastSeqId := JStr ''7''\<rparr>) = []"
proof -
  have p: "parseSseText ''id: 7\<newline>data:'' = [\<lparr>sse_id = JStr ''7'', sse_data = JStr []\<rparr>]"
    by (simp add: parseSseText_def splitLines_def LF_def CR_def sseLine_def startsWith_def
      pushEvent_def trim_def trimStart_def trimEnd_def isWhiteSpace_def)
  have t: "trim ''id: 7\<newline>data:'' = ''id: 7\<newline>data:''"
    by (simp add: trim_def trimStart_def trimEnd_def isWhiteSpace_def)
  show ?thesis
    by (simp add: emitFromResponse_def t p startsWith_def emitSse_def emitSseEntry_def
        js_coalesce_def parseEventPayload_def trim_empty deliver_def newSubscription_def)
qed

text \<open>
  C3. The claim: for every body the decoder never throws; a string that is empty after
  trimming gives no event, and a string that is not JSON gives one event with step id
  \<^verbatim>\<open>unknown\<close>, the trimmed text as message and \<^verbatim>\<open>finished\<close> false (the last two
  are \<open>parseEventPayload_blank\<close> and \<open>parseEventPayload_not_json\<close> above). The code
  departs from the first part: \<^verbatim>\<open>parseEventPayload\<close> turns a \<^verbatim>\<open>null\<close> payload
  down before parsing, but reads \<^verbatim>\<open>record.step_id\<close> of what \<^verbatim>\<open>JSON.parse\<close>
  returned without looking whether that is \<^verbatim>\<open>null\<close>. So the event stream body
  \<^verbatim>\<open>data: null\<close> makes the decoder throw a \<^verbatim>\<open>TypeError\<close>, which leaves
  \<^verbatim>\<open>poll\<close> through its \<^verbatim>\<open>catch\<close> block and ends the subscription in
  \<^verbatim>\<open>onError\<close>.
\<close>

theorem null_data_frame_throws:
  assumes "jsonParse E ''null'' = Some JNull" and "jsonParse E ''data: null'' = None"
  shows "emitFromResponse E (JStr ''data: null'') st = (Some TypeError, st)
     \<and> subscribeToJobEvents E [Response 200 (Text ''data: null'')] =
        (Threw TypeError,
         newSubscription\<lparr>requests := [JUndefined], hasConnected := True,
            onCompleteCalls := 1, onErrorCalls := [TypeError]\<rparr>)"
proof -
  have p: "parseEventPayload E (JStr ''null'') JUndefined = Inl TypeError"
    using assms(1) by (intro parseEventPayload_null [where v = JNull]) (simp_all add: trim_null)
  have a: "emitFromResponse E (JStr ''data: null'') s = (Some TypeError, s)" for s
    by (simp add: emitFromResponse_def trim_data_null startsWith_def parseSseText_data_null
        emitSse_def emitSseEntry_def js_coalesce_def p deliver_def)
  have b: "emitBody E ''data: null'' s = (Some TypeError, s)" for s
    using assms(2) a by (simp add: emitBody_def)
  have "subscribeToJobEvents E [Response 200 (Text ''data: null'')] =
        (Threw TypeError,
         newSubscription\<lparr>requests := [JUndefined], hasConnected := True,
            onCompleteCalls := 1, onErrorCalls := [TypeError]\<rparr>)"
    by (simp add: subscribeToJobEvents_def pollTurn_def ok_def trim_data_null b
        markConnected_def newSubscription_def)
  with a show ?thesis by simp
qed

theorem null_data_frame_throws_witness:
  "jsonParse sampleEnv ''null'' = Some JNull \<and> jsonParse sampleEnv ''data: null'' = None
   \<and> fst (subscribeToJobEvents sampleEnv [Response 200 (Text ''data: null'')]) = Threw TypeError
   \<and> onErrorCalls (snd (subscribeToJobEvents sampleEnv [Response 200 (Text ''data: null'')]))
       = [TypeError]"
  using null_data_frame_throws [OF sampleEnv_parse(1,4)] sampleEnv_parse(1,4) by simp




text \<open>
  C5. The kind is a function of the step id alone, decided by case-sensitive prefix
  matching in which the first matching rule wins: \<^verbatim>\<open>chat:token:5\<close> and
  \<^verbatim>\<open>chat:tokens:5\<close> are chat tokens, \<^verbatim>\<open>phase:research\<close> is a phase,
  \<^verbatim>\<open>agent:search:web:task-2\<close> is a task (the task rule is tried before the agent
  rule) and \<^verbatim>\<open>bogus\<close> is unknown; a prefix in another case does not match.
\<close>

theorem getEventType_examples:
  "getEventType ''chat:token:5'' = ChatToken
   \<and> getEventType ''chat:tokens:5'' = ChatToken
   \<and> getEventType ''phase:research'' = Phase
   \<and> getEventType ''agent:search:web:task-2'' = Task
   \<and> getEventType ''bogus'' = Unknown
   \<and> getEventType ''agent:search:web'' = Agent
   \<and> getEventType ''Phase:research'' = Unknown"
  by (simp add: getEventType_def startsWith_def)

text \<open>
  C6. \<^verbatim>\<open>onComplete\<close>, the callback of the first connection, is called at most once
  in a subscription, whatever the requests are answered. When the first answer is a 204
  and the second a 200 whose body is a JSON array of two event-like records, it has been
  called once after the 204 and is not called again, and the two events are delivered
  through \<^verbatim>\<open>onEvent\<close> in the order of the array, with no error.
\<close>

theorem onFirstConnect_once:
  "onCompleteCalls (snd (subscribeToJobEvents E outcomes)) \<le> 1
   \<and> onCompleteCalls (snd (subscribeToJobEvents E [Response 204 b])) = 1
   \<and> (jsonParse E body = Some (JArr [e1, e2]) \<and> trim body \<noteq> []
        \<and> eventLike e1 \<and> eventLike e2 \<and> kindGiven E \<longrightarrow>
      (\<exists>ev1 ev2 st. subscribeToJobEvents E [Response 204 b, Response 200 (Text body)] = (Pending, st)
           \<and> onCompleteCalls st = 1
           \<and> onEventCalls st = [ev1, ev2]
           \<and> parseEventPayload E (itemPayload e1) e1 = Inr (Some ev1)
           \<and> parseEventPayload E (itemPayload e2) e2 = Inr (Some ev2)
           \<and> onErrorCalls st = []))"
  using first_connect_at_most_once [of E outcomes] first_connect_on_204 [of E b]
    first_connect_scenario [of E body e1 e2 b]
  by blast

theorem onFirstConnect_once_witness:
  "jsonParse sampleEnv twoEventsText = Some (JArr [twoEvents ! 0, twoEvents ! 1])
   \<and> trim twoEventsText \<noteq> []
   \<and> eventLike (twoEvents ! 0) \<and> eventLike (twoEvents ! 1) \<and> kindGiven sampleEnv
   \<and> onCompleteCalls (snd (subscribeToJobEvents sampleEnv
          [Response 204 (Text []), Response 200 (Text twoEventsText), Response 204 (Text [])])) \<le> 1
   \<and> onCompleteCalls (snd (subscribeToJobEvents sampleEnv [Response 204 (Text [])])) = 1
   \<and> fst (subscribeToJobEvents sampleEnv
            [Response 204 (Text []), Response 200 (Text twoEventsText)]) = Pending
   \<and> onCompleteCalls (snd (subscribeToJobEvents sampleEnv
            [Response 204 (Text []), Response 200 (Text twoEventsText)])) = 1
   \<and> onEventCalls (snd (subscribeToJobEvents sampleEnv
            [Response 204 (Text []), Response 200 (Text twoEventsText)])) =
       [\<lparr>step_id = JStr ''phase:plan'', message = JStr ''started'', finished = JBool False,
          timestamp = JNum 1000, type = Phase\<rparr>,
        \<lparr>step_id = JStr ''phase:plan'', message = JStr ''done'', finished = JBool True,
          timestamp = JNum 1000, type = Phase\<rparr>]"
proof -
  have a: "jsonParse sampleEnv twoEventsText = Some (JArr [twoEvents ! 0, twoEvents ! 1])"
    by (simp add: sampleEnv_parse) (simp add: twoEvents_def)
  have b: "eventLike (twoEvents ! 0)" and c: "eventLike (twoEvents ! 1)"
    by (simp_all add: twoEvents_def eventLike_def itemPayload_def js_coalesce_def stepIdOf_def isString_def)
  note inst = onFirstConnect_once [of sampleEnv
      "[Response 204 (Text []), Response 200 (Text twoEventsText), Response 204 (Text [])]"
      "Text []" twoEventsText "twoEvents ! 0" "twoEvents ! 1"]
  have g: "onCompleteCalls (snd (subscribeToJobEvents sampleEnv
          [Response 204 (Text []), Response 200 (Text twoEventsText), Response 204 (Text [])])) \<le> 1"
    and o: "onCompleteCalls (snd (subscribeToJobEvents sampleEnv [Response 204 (Text [])])) = 1"
    using inst by simp_all
  obtain ev1 ev2 st where r:
      "subscribeToJobEvents sampleEnv [Response 204 (Text []), Response 200 (Text twoEventsText)]
         = (Pending, st)"
      "onCompleteCalls st = 1" "onEventCalls st = [ev1, ev2]"
      "parseEventPayload sampleEnv (itemPayload (twoEvents ! 0)) (twoEvents ! 0) = Inr (Some ev1)"
      "parseEventPayload sampleEnv (itemPayload (twoEvents ! 1)) (twoEvents ! 1) = Inr (Some ev2)"
    using inst a trim_twoEventsText b c kindGiven_sampleEnv by blast
  have "map (\<lambda>ev. Inr (Some ev)) [ev1, ev2] =
      map (\<lambda>entry. parseEventPayload sampleEnv (itemPayload entry) entry) twoEvents"
    using r(4,5) by (simp add: twoEvents_def)
  then have "[ev1, ev2] = [\<lparr>step_id = JStr ''phase:plan'', message = JStr ''started'', finished = JBool False,
          timestamp = JNum 1000, type = Phase\<rparr>,
        \<lparr>step_id = JStr ''phase:plan'', message = JStr ''done'', finished = JBool True,
          timestamp = JNum 1000, type = Phase\<rparr>]"
    unfolding twoEvents_events by (rule delivered_inj)
  then show ?thesis using a b c trim_twoEventsText kindGiven_sampleEnv g o r(1,2,3) by simp
qed

text \<open>
  C7. When a turn of the loop gets a status that is neither 2xx nor 101 nor 204, the
  loop reads the body text and throws an error whose message holds the status and that
  text; \<^verbatim>\<open>onError\<close> is called with it, once, and it is the only call; the request of
  that turn is the last one, whatever the server would have answered afterwards.
\<close>

theorem fatal_status_stops_subscription:
  assumes "code \<noteq> 204" and "\<not> ok code" and "code \<noteq> 101"
    and "poll E pre newSubscription = (Pending, st)"
  shows "subscribeToJobEvents E (pre @ Response code (Text body) # rest) =
     (Threw (Error (''Events request failed: '' @ showNat code @ '' - '' @ body)),
      st\<lparr>requests := requests st @ [if truthy (lastSeqId st) then lastSeqId st else JUndefined],
         onErrorCalls := [Error (''Events request failed: '' @ showNat code @ '' - '' @ body)]\<rparr>)
     \<and> length (requests st) = length pre"
proof -
  have na: "\<not> aborted st"
    using assms(4) by (rule poll_Pending_alive)
  have e: "onErrorCalls st = []"
    using poll_onErrorCalls [of E pre newSubscription] assms(4) by simp
  have "poll E (pre @ Response code (Text body) # rest) newSubscription =
      poll E (Response code (Text body) # rest) st"
    using assms(4) by (rule poll_append)
  also have "\<dots> = (Threw (Error (''Events request failed: '' @ showNat code @ '' - '' @ body)),
      st\<lparr>requests := requests st @ [if truthy (lastSeqId st) then lastSeqId st else JUndefined]\<rparr>)"
    using na assms(1-3) by (simp add: pollTurn_def)
  finally show ?thesis
    using e poll_Pending_requests [OF assms(4)] by (simp add: subscribeToJobEvents_def)
qed

theorem fatal_status_stops_subscription_witness:
  "(500::nat) \<noteq> 204 \<and> \<not> ok 500 \<and> (500::nat) \<noteq> 101
   \<and> poll sampleEnv [Response 204 (Text [])] newSubscription =
        (Pending, newSubscription\<lparr>requests := [JUndefined], hasConnected := True, onCompleteCalls := 1\<rparr>)
   \<and> subscribeToJobEvents sampleEnv
         ([Response 204 (Text [])] @ Response 500 (Text ''boom'') # [Response 200 (Text ''late'')]) =
        (Threw (Error ''Events request failed: 500 - boom''),
         newSubscription\<lparr>requests := [JUndefined, JUndefined], hasConnected := True,
            onCompleteCalls := 1, onErrorCalls := [Error ''Events request failed: 500 - boom'']\<rparr>)"
proof -
  have s: "showNat 500 = ''500''" by code_simp
  have a: "(500::nat) \<noteq> 204" and b: "\<not> ok 500" and c: "(500::nat) \<noteq> 101"
    by (simp_all add: ok_def)
  have p: "poll sampleEnv [Response 204 (Text [])] newSubscription =
        (Pending, newSubscription\<lparr>requests := [JUndefined], hasConnected := True, onCompleteCalls := 1\<rparr>)"
    by (simp add: pollTurn_def markConnected_def newSubscription_def)
  show ?thesis
    using fatal_status_stops_subscription [OF a b c p, of "''boom''" "[Response 200 (Text ''late'')]"]
      a b c p
    by (simp add: s newSubscription_def)
qed

text \<open>
  C8. The claim: cancelling, by the cancel function of the subscription or by
  \<^verbatim>\<open>reset\<close> of the controller, never calls the error callback, never fills the
  error field and never sets the status to error, and after \<^verbatim>\<open>reset\<close> no pending
  timer or subscription remains. The subscription keeps its half: an
  \<^verbatim>\<open>AbortError\<close> is swallowed (lemmas \<open>cancelled_silent\<close>, \<open>body_cancelled_silent\<close>
  and \<open>poll_cancelled\<close>). The controller does not: \<^verbatim>\<open>reset\<close> calls
  \<^verbatim>\<open>cleanup\<close>, which cancels the subscription and clears the timer it knows of and
  sets \<^verbatim>\<open>connectedRef\<close> to false, but a status poll whose \<^verbatim>\<open>readJob\<close> is under
  way is not cancelled. When that read is answered with a running job,
  \<^verbatim>\<open>pollOnce\<close> finds \<^verbatim>\<open>connectedRef\<close> false, opens a subscription and sets the
  status to streaming, on a run that has been reset and has no timer left to end it;
  answered with a failed job, it sets the status to error and fills the error field.
  Likewise a \<^verbatim>\<open>submitPrompt\<close> that is still waiting for its first poll starts the
  timer once \<^verbatim>\<open>reset\<close> has returned.
\<close>

theorem poll_in_flight_outlives_reset:
  "subscriptions (pollOnce runningJob cancelFn (reset c)) = subscriptions (reset c) @ [cancelFn]
   \<and> abortRef (pollOnce runningJob cancelFn (reset c)) = Some cancelFn
   \<and> status (pollOnce runningJob cancelFn (reset c)) = Streaming
   \<and> status (pollOnce failedJob cancelFn (reset c)) = Failed
   \<and> error (pollOnce failedJob cancelFn (reset c)) = Some ''Chat job failed''
   \<and> intervals (startPolling timer (reset c)) = intervals (reset c) @ [timer]
   \<and> subscriptions (reset streamingRun) = [] \<and> intervals (reset streamingRun) = []
   \<and> subscriptions (pollOnce runningJob 2 (reset streamingRun)) = [2]
   \<and> intervals (startPolling 2 (reset streamingRun)) = [2]"
proof -
  have s: "subscriptions (reset streamingRun) = []" "intervals (reset streamingRun) = []"
    by (simp_all add: reset_def cleanup_def streamingRun_def startPolling_def openSubscription_def
        idleRun_def)
  have r: "pollOnce runningJob h (reset d) = openSubscription h (reset d)" for h d
    by (simp add: pollOnce_def runningJob_def lower_running reset_fields terminalSuccess_def
        terminalError_def nonTerminal_def Let_def)
  have f: "status (pollOnce failedJob h (reset d)) = Failed"
    "error (pollOnce failedJob h (reset d)) = Some ''Chat job failed''" for h d
    by (simp_all add: pollOnce_def failedJob_def lower_running reset_fields terminalSuccess_def
        terminalError_def nonTerminal_def Let_def)
  show ?thesis
    using s f by (simp add: r openSubscription_def startPolling_def)
qed

text \<open>
  C9. The claim: when the callback for a fatal stream error fires, the controller tears
  down the subscription and the status poll timer, finalizes the placeholder, sets the
  status to error and records the message. The handler in the code sets the status, the
  message and the connection status and finalizes the placeholder, but it does not call
  \<^verbatim>\<open>cleanup\<close>: the timer of the status poll keeps running, where the handler of a
  failed status poll beside it does clear it.
\<close>

theorem stream_error_keeps_timer:
  "pollRef (onStreamError msg c) = pollRef c
   \<and> intervals (onStreamError msg c) = intervals c
   \<and> abortRef (onStreamError msg c) = abortRef c
   \<and> subscriptions (onStreamError msg c) = subscriptions c
   \<and> connectedRef (onStreamError msg c) = connectedRef c
   \<and> status (onStreamError msg c) = Failed
   \<and> error (onStreamError msg c) = Some msg
   \<and> pollRef (onStreamError ''Events request failed: 500 - boom'' streamingRun) = Some 1
   \<and> intervals (onStreamError ''Events request failed: 500 - boom'' streamingRun) = [1]
   \<and> pollRef (onPollError ''Job read failed: 500 - boom'' streamingRun) = None
   \<and> intervals (onPollError ''Job read failed: 500 - boom'' streamingRun) = []"
  by (simp add: onStreamError_def onPollError_def finalizeAssistant_def cleanup_def
      streamingRun_def startPolling_def openSubscription_def idleRun_def
      split: option.splits)



end
